theory Spec2Isabelle
  imports Main "HOL-Library.Sublist" "HOL-Library.AList" "HOL-Library.Multiset"
begin

section \<open>Strings\<close>

text \<open>
  Source strings are modelled as HOL strings (lists of 8-bit characters); a glyph such as
  U+1F602 is the list of its UTF-8 bytes. For well-formed strings a string occurs in
  another as a run of bytes exactly when it occurs in it as a run of code units. The engine
  compares strings for equality and walks them character by character. It also calls
  \<open>String.prototype.trim\<close> and \<open>String.prototype.toLowerCase\<close>. Both belong to the runtime
  and cover all of Unicode: \<open>trim\<close> strips the WhiteSpace and LineTerminator code points
  (U+00A0, U+FEFF, U+2028, U+3000 and the others as well as TAB and SPACE), and
  \<open>toLowerCase\<close> applies the Unicode case mappings. The two methods are parameters of the
  model: every function that calls one of them takes the pair as its first argument, so
  what is proved holds for the methods of the runtime, whatever they do beyond ASCII.
\<close>

record StringMethods =
  trim :: "string \<Rightarrow> string"
  toLowerCase :: "string \<Rightarrow> string"

text \<open>
  The two facts about the methods that proofs may assume: trimming a trimmed string
  changes nothing, and the empty string is the only one that lowercases to the empty
  string.
\<close>

definition stringMethodsOK :: "StringMethods \<Rightarrow> bool" where
  "stringMethodsOK rt =
     ((\<forall>x. trim rt (trim rt x) = trim rt x) \<and> (\<forall>x. (toLowerCase rt x = []) = (x = [])))"

text \<open>
  The instance the examples are evaluated with. It is what the two methods do on strings
  of ASCII characters: \<open>asciiTrim\<close> strips TAB, LF, VT, FF, CR and SPACE from both ends,
  \<open>asciiToLowerCase\<close> maps \<open>A\<close>..\<open>Z\<close> to \<open>a\<close>..\<open>z\<close>. Every example below is made of ASCII
  letters and spaces where a method is applied to it.
\<close>

definition isWhiteSpace :: "char \<Rightarrow> bool" where
  "isWhiteSpace c = (c \<in> set [CHR 0x09, CHR 0x0A, CHR 0x0B, CHR 0x0C, CHR 0x0D, CHR 0x20])"

definition asciiTrim :: "string \<Rightarrow> string" where
  "asciiTrim s = rev (dropWhile isWhiteSpace (rev (dropWhile isWhiteSpace s)))"

definition lowerChar :: "char \<Rightarrow> char" where
  "lowerChar c =
     (let n = (of_char c :: nat) in if 65 \<le> n \<and> n \<le> 90 then char_of (n + 32) else c)"

definition asciiToLowerCase :: "string \<Rightarrow> string" where
  "asciiToLowerCase s = map lowerChar s"

definition asciiMethods :: StringMethods where
  "asciiMethods = \<lparr>trim = asciiTrim, toLowerCase = asciiToLowerCase\<rparr>"

section \<open>The catalog (type.ts)\<close>

text \<open>
  \<open>EmojiImageArray\<close> is the tuple \<open>[apple, google, twitter, facebook, path]\<close> or \<open>null\<close>; an
  entry of \<open>emojis\<close> is the tuple \<open>[emoji, name, category, subCategory, keywords, image]\<close>,
  read in the source as \<open>emoji[0]\<close> .. \<open>emoji[5]\<close>. The field \<open>keywords\<close> of the catalog is
  called \<open>keywords_tbl\<close> here, the name being reserved in Isabelle.
\<close>

type_synonym EmojiImageArray = "(nat \<times> nat \<times> nat \<times> nat \<times> string) option"

datatype EmojiEntry =
  EmojiEntry (entry_emoji: string) (entry_name: string) (entry_category: nat)
    (entry_subCategory: nat) (entry_keywords: "nat list") (entry_image: EmojiImageArray)

record ReducedEmojiList =
  category :: "string list"
  subCategory :: "string list list"
  keywords_tbl :: "string list"
  emojis :: "EmojiEntry list"

record EmojiImage =
  image_file :: string
  apple :: bool
  google :: bool
  twitter :: bool
  facebook :: bool

text \<open>
  \<open>HumanReadableEmoji\<close>: what \<open>intoHumanReadable\<close> returns. A read past the end of a
  JavaScript array yields \<open>undefined\<close>, so the resolved category, subcategory and keywords
  are options; \<open>weight\<close> is the optional second argument.
\<close>

record HumanReadableEmoji =
  emoji :: string
  name :: string
  category_name :: "string option"
  subcategory :: "string option"
  keyword_names :: "string option list"
  image_info :: "EmojiImage option"
  weight :: "nat option"

datatype error = TypeError

text \<open>\<open>xs[i]\<close> on a JavaScript array: \<open>undefined\<close> (here \<open>None\<close>) out of range.\<close>

definition nth_opt :: "'a list \<Rightarrow> nat \<Rightarrow> 'a option" where
  "nth_opt xs i = (if i < length xs then Some (xs ! i) else None)"

text \<open>\<open>Array.prototype.map\<close> with a callback that may throw: the first throw aborts the map.\<close>

fun mapE :: "('a \<Rightarrow> error + 'b) \<Rightarrow> 'a list \<Rightarrow> error + 'b list" where
  "mapE f [] = Inr []"
| "mapE f (x # xs) =
     (case f x of
        Inl err \<Rightarrow> Inl err
      | Inr y \<Rightarrow> (case mapE f xs of Inl err \<Rightarrow> Inl err | Inr ys \<Rightarrow> Inr (y # ys)))"

text \<open>\<open>Array.prototype.indexOf\<close> and \<open>findIndex\<close>: the first position, \<open>None\<close> for \<open>-1\<close>.\<close>

fun findIndex :: "('a \<Rightarrow> bool) \<Rightarrow> 'a list \<Rightarrow> nat option" where
  "findIndex P [] = None"
| "findIndex P (x # xs) = (if P x then Some 0 else map_option Suc (findIndex P xs))"

definition indexOf :: "'a list \<Rightarrow> 'a \<Rightarrow> nat option" where
  "indexOf xs x = findIndex (\<lambda>y. y = x) xs"

section \<open>The suffix trie (search-emoji.ts)\<close>

text \<open>
  \<open>interface TrieNode { children: Record<string, TrieNode>; output: number[] }\<close>. The
  children object is an association list in insertion order, keyed by one character; the
  selector of \<open>output\<close> is called \<open>output_ids\<close>, the name being reserved in Isabelle.
\<close>

datatype TrieNode = TrieNode (children: "(char \<times> TrieNode) list") (output_ids: "nat list")

text \<open>
  \<open>if (!node.output.includes(emojiIdx)) node.output.push(emojiIdx)\<close>
\<close>

definition pushOutput :: "TrieNode \<Rightarrow> nat \<Rightarrow> TrieNode" where
  "pushOutput node emojiIdx =
     (if emojiIdx \<in> set (output_ids node) then node
      else TrieNode (children node) (output_ids node @ [emojiIdx]))"

text \<open>
  The inner loop of \<open>insertIntoTrie\<close>, from \<open>pos = start\<close> to the end of the text: create the
  child for \<open>ch\<close> if it is missing, step into it, record the emoji index there. The source
  mutates the nodes in place; the model rebuilds the path it walked.
\<close>

fun insertSuffix :: "TrieNode \<Rightarrow> string \<Rightarrow> nat \<Rightarrow> TrieNode" where
  "insertSuffix node [] emojiIdx = node"
| "insertSuffix node (ch # rest) emojiIdx =
     (let child = (case map_of (children node) ch of
                     None \<Rightarrow> TrieNode [] []
                   | Some c \<Rightarrow> c)
      in TrieNode
           (AList.update ch (insertSuffix (pushOutput child emojiIdx) rest emojiIdx)
              (children node))
           (output_ids node))"

text \<open>The outer loop: one walk from the root for every \<open>start\<close> in \<open>0 .. text.length - 1\<close>.\<close>

definition insertIntoTrie :: "TrieNode \<Rightarrow> string \<Rightarrow> nat \<Rightarrow> TrieNode" where
  "insertIntoTrie root str emojiIdx =
     fold (\<lambda>start r. insertSuffix r (drop start str) emojiIdx) [0..<length str] root"

text \<open>
  \<open>searchTrie\<close>: the loop \<open>for (i = 0; i < input.length && node; i++) node = node.children[ch]\<close>
  and the final \<open>node ? node.output : []\<close>.
\<close>

fun descend :: "TrieNode option \<Rightarrow> string \<Rightarrow> TrieNode option" where
  "descend None input = None"
| "descend (Some node) [] = Some node"
| "descend (Some node) (ch # rest) = descend (map_of (children node) ch) rest"

definition searchTrie :: "TrieNode \<Rightarrow> string \<Rightarrow> nat list" where
  "searchTrie root input =
     (case descend (Some root) input of Some node \<Rightarrow> output_ids node | None \<Rightarrow> [])"

section \<open>The engine\<close>

text \<open>
  The object \<open>toJSON\<close> returns (\<open>EmojiTrieCache\<close> in emoji-selector.tsx) holds the three
  roots and the name map; an \<open>EmojiSearcher\<close> holds the same four fields and the catalog.
  \<open>nameMap: Record<string, number>\<close> is an association list of its own properties.
\<close>

record EmojiTrieCache =
  nameTrieRoot :: TrieNode
  keywordTrieRoot :: TrieNode
  categoryTrieRoot :: TrieNode
  nameMap :: "(string \<times> nat) list"

record EmojiSearcher = EmojiTrieCache +
  emojiList :: ReducedEmojiList

text \<open>
  The keyword loop of \<open>buildTries\<close>. \<open>keywords[keywordIdx]!\<close> is \<open>undefined\<close> out of range
  and \<open>keyword.toLowerCase()\<close> then throws a TypeError.
\<close>

fun insertKeywords :: "StringMethods \<Rightarrow> string list \<Rightarrow> nat list \<Rightarrow> nat \<Rightarrow> TrieNode \<Rightarrow> error + TrieNode" where
  "insertKeywords rt kws [] i root = Inr root"
| "insertKeywords rt kws (keywordIdx # rest) i root =
     (case nth_opt kws keywordIdx of
        None \<Rightarrow> Inl TypeError
      | Some keyword \<Rightarrow> insertKeywords rt kws rest i (insertIntoTrie root (toLowerCase rt keyword) i))"

text \<open>
  The body of the loop of \<open>buildTries\<close> for the record at position \<open>i\<close>. Indexing
  \<open>subCategory[emoji[2]]\<close> when it is \<open>undefined\<close>, and \<open>toLowerCase\<close> on an \<open>undefined\<close>
  category or subcategory name, throw a TypeError.
\<close>

definition buildEntry :: "StringMethods \<Rightarrow> nat \<Rightarrow> EmojiSearcher \<Rightarrow> error + EmojiSearcher" where
  "buildEntry rt i s =
     (let el = emojiList s;
          e = emojis el ! i;
          nm = entry_name e;
          nameMap' = AList.update nm i (nameMap s);
          nameTrie' = insertIntoTrie (nameTrieRoot s) (toLowerCase rt nm) i
      in case insertKeywords rt (keywords_tbl el) (entry_keywords e) i (keywordTrieRoot s) of
           Inl err \<Rightarrow> Inl err
         | Inr keywordTrie' \<Rightarrow>
             (case nth_opt (subCategory el) (entry_category e) of
                None \<Rightarrow> Inl TypeError
              | Some subs \<Rightarrow>
                  (case nth_opt (category el) (entry_category e) of
                     None \<Rightarrow> Inl TypeError
                   | Some categoryName \<Rightarrow>
                       (case nth_opt subs (entry_subCategory e) of
                          None \<Rightarrow> Inl TypeError
                        | Some subcategoryName \<Rightarrow>
                            Inr (s\<lparr>nameMap := nameMap',
                                   nameTrieRoot := nameTrie',
                                   keywordTrieRoot := keywordTrie',
                                   categoryTrieRoot :=
                                     insertIntoTrie
                                       (insertIntoTrie (categoryTrieRoot s)
                                          (toLowerCase rt categoryName) i)
                                       (toLowerCase rt subcategoryName) i\<rparr>)))))"

fun buildLoop :: "StringMethods \<Rightarrow> nat list \<Rightarrow> EmojiSearcher \<Rightarrow> error + EmojiSearcher" where
  "buildLoop rt [] s = Inr s"
| "buildLoop rt (i # rest) s =
     (case buildEntry rt i s of Inl err \<Rightarrow> Inl err | Inr s' \<Rightarrow> buildLoop rt rest s')"

definition buildTries :: "StringMethods \<Rightarrow> EmojiSearcher \<Rightarrow> error + EmojiSearcher" where
  "buildTries rt s = buildLoop rt [0..<length (emojis (emojiList s))] s"

text \<open>
  The constructor: take the four fields of \<open>cachedJson\<close> when it is given, build them
  otherwise. A throw in \<open>buildTries\<close> leaves no engine.
\<close>

definition newEmojiSearcher ::
  "StringMethods \<Rightarrow> ReducedEmojiList \<Rightarrow> EmojiTrieCache option \<Rightarrow> error + EmojiSearcher" where
  "newEmojiSearcher rt el cachedJson =
     (case cachedJson of
        Some c \<Rightarrow>
          Inr \<lparr>nameTrieRoot = nameTrieRoot c, keywordTrieRoot = keywordTrieRoot c,
               categoryTrieRoot = categoryTrieRoot c, nameMap = nameMap c, emojiList = el\<rparr>
      | None \<Rightarrow>
          buildTries rt
            \<lparr>nameTrieRoot = TrieNode [] [], keywordTrieRoot = TrieNode [] [],
             categoryTrieRoot = TrieNode [] [], nameMap = [], emojiList = el\<rparr>)"

definition toJSON :: "EmojiSearcher \<Rightarrow> EmojiTrieCache" where
  "toJSON s =
     \<lparr>nameTrieRoot = nameTrieRoot s, keywordTrieRoot = keywordTrieRoot s,
      categoryTrieRoot = categoryTrieRoot s, nameMap = nameMap s\<rparr>"

subsection \<open>Materialising a record\<close>

definition fromEmojiImageArr :: "EmojiImageArray \<Rightarrow> EmojiImage option" where
  "fromEmojiImageArr arr =
     (case arr of
        None \<Rightarrow> None
      | Some (a, g, t, f, p) \<Rightarrow>
          Some \<lparr>image_file = p, apple = (a = 1), google = (g = 1), twitter = (t = 1),
                facebook = (f = 1)\<rparr>)"

text \<open>
  \<open>intoHumanReadable\<close> throws a TypeError when \<open>emojis[emojiIdx]\<close> or
  \<open>subCategory[emoji[2]]\<close> is \<open>undefined\<close>; the other reads only yield \<open>undefined\<close>.
\<close>

definition intoHumanReadable ::
  "EmojiSearcher \<Rightarrow> nat \<Rightarrow> nat option \<Rightarrow> error + HumanReadableEmoji" where
  "intoHumanReadable s emojiIdx w =
     (let el = emojiList s in
      case nth_opt (emojis el) emojiIdx of
        None \<Rightarrow> Inl TypeError
      | Some e \<Rightarrow>
          (case nth_opt (subCategory el) (entry_category e) of
             None \<Rightarrow> Inl TypeError
           | Some subs \<Rightarrow>
               Inr \<lparr>emoji = entry_emoji e,
                    name = entry_name e,
                    category_name = nth_opt (category el) (entry_category e),
                    subcategory = nth_opt subs (entry_subCategory e),
                    keyword_names = map (nth_opt (keywords_tbl el)) (entry_keywords e),
                    image_info = fromEmojiImageArr (entry_image e),
                    weight = w\<rparr>))"

subsection \<open>Votes\<close>

text \<open>
  \<open>resultVotes: Record<number, number>\<close>. The keys of the object are array indices, which
  \<open>Object.entries\<close> lists in ascending numeric order whatever the order of insertion: the
  model keeps the entries sorted by key. \<open>addVote\<close> is
  \<open>resultVotes[idx] = (resultVotes[idx] || 0) + weight\<close>.
\<close>

fun addVote :: "(nat \<times> nat) list \<Rightarrow> nat \<Rightarrow> nat \<Rightarrow> (nat \<times> nat) list" where
  "addVote [] idx w = [(idx, w)]"
| "addVote ((k, v) # rest) idx w =
     (if idx = k then (k, v + w) # rest
      else if idx < k then (idx, w) # (k, v) # rest
      else (k, v) # addVote rest idx w)"

text \<open>
  \<open>this.nameMap[input]\<close>. The name map is a plain object, so a key that is not one of its
  own properties is looked up in \<open>Object.prototype\<close>: for the property names every object
  inherits the read yields a function, not \<open>undefined\<close>. (The runtime of the plugin is
  Deno, where \<open>__proto__\<close> is not among them.)
\<close>

datatype property = Undefined | OwnNumber nat | Inherited

definition objectPrototypeKeys :: "string list" where
  "objectPrototypeKeys =
     [''constructor'', ''hasOwnProperty'', ''isPrototypeOf'', ''propertyIsEnumerable'',
      ''toLocaleString'', ''toString'', ''valueOf'', ''__defineGetter__'',
      ''__defineSetter__'', ''__lookupGetter__'', ''__lookupSetter__'']"

definition nameMapGet :: "(string \<times> nat) list \<Rightarrow> string \<Rightarrow> property" where
  "nameMapGet m key =
     (case map_of m key of
        Some i \<Rightarrow> OwnNumber i
      | None \<Rightarrow> if key \<in> set objectPrototypeKeys then Inherited else Undefined)"

text \<open>
  The votes \<open>search\<close> has gathered when it reaches its \<open>return\<close>, for an input that is not
  blank: exact name (5), exact keyword (4), then the three tries (3, 2, 1). The exact
  lookups use \<open>input\<close> as it was passed; the tries get \<open>input.trim().toLowerCase()\<close>.
\<close>

definition resultVotes :: "StringMethods \<Rightarrow> EmojiSearcher \<Rightarrow> string \<Rightarrow> (nat \<times> nat) list" where
  "resultVotes rt s input =
     (let el = emojiList s;
          lowerInput = toLowerCase rt (trim rt input);
          votes1 = (case nameMapGet (nameMap s) input of
                      OwnNumber exactIdx \<Rightarrow> addVote [] exactIdx 5
                    | _ \<Rightarrow> []);
          votes2 = (case indexOf (keywords_tbl el) input of
                      None \<Rightarrow> votes1
                    | Some exactKeywordIdx \<Rightarrow>
                        fold (\<lambda>i v. if exactKeywordIdx \<in> set (entry_keywords (emojis el ! i))
                                     then addVote v i 4 else v)
                          [0..<length (emojis el)] votes1);
          votes3 = fold (\<lambda>idx v. addVote v idx 3) (searchTrie (nameTrieRoot s) lowerInput) votes2;
          votes4 = fold (\<lambda>idx v. addVote v idx 2) (searchTrie (keywordTrieRoot s) lowerInput) votes3
      in fold (\<lambda>idx v. addVote v idx 1) (searchTrie (categoryTrieRoot s) lowerInput) votes4)"

text \<open>\<open>Object.entries(resultVotes).filter(([, weight]) => weight > 3)\<close>\<close>

definition searchEntries :: "StringMethods \<Rightarrow> EmojiSearcher \<Rightarrow> string \<Rightarrow> (nat \<times> nat) list" where
  "searchEntries rt s input = filter (\<lambda>(idx, w). 3 < w) (resultVotes rt s input)"

definition getAll :: "EmojiSearcher \<Rightarrow> error + HumanReadableEmoji list" where
  "getAll s = mapE (\<lambda>i. intoHumanReadable s i None) [0..<length (emojis (emojiList s))]"

text \<open>
  \<open>search\<close>. When the exact-name read yields an inherited function, \<open>addVote\<close> files the 5
  under the function's source text, a key that is not a number; the entry passes the
  filter, \<open>parseInt\<close> of the key is \<open>NaN\<close>, \<open>emojis[NaN]\<close> is \<open>undefined\<close> and
  \<open>intoHumanReadable\<close> throws. Every other step of \<open>search\<close> is pure, so the call as a
  whole throws a TypeError.
\<close>

definition search :: "StringMethods \<Rightarrow> EmojiSearcher \<Rightarrow> string \<Rightarrow> error + HumanReadableEmoji list" where
  "search rt s input =
     (if toLowerCase rt (trim rt input) = [] then
        mapE (\<lambda>i. intoHumanReadable s i None) [0..<length (emojis (emojiList s))]
      else if nameMapGet (nameMap s) input = Inherited then Inl TypeError
      else mapE (\<lambda>(idx, w). intoHumanReadable s idx (Some w)) (searchEntries rt s input))"

subsection \<open>The curated list\<close>

definition commonEmojis :: "string list" where
  "commonEmojis =
     [[CHR 0xF0, CHR 0x9F, CHR 0x98, CHR 0x82],
      [CHR 0xE2, CHR 0x9D, CHR 0xA4, CHR 0xEF, CHR 0xB8, CHR 0x8F],
      [CHR 0xF0, CHR 0x9F, CHR 0xA4, CHR 0xA3],
      [CHR 0xF0, CHR 0x9F, CHR 0x91, CHR 0x8D],
      [CHR 0xF0, CHR 0x9F, CHR 0x98, CHR 0xAD],
      [CHR 0xF0, CHR 0x9F, CHR 0x99, CHR 0x8F],
      [CHR 0xF0, CHR 0x9F, CHR 0x98, CHR 0x98],
      [CHR 0xF0, CHR 0x9F, CHR 0xA5, CHR 0xB0],
      [CHR 0xF0, CHR 0x9F, CHR 0x98, CHR 0x8D],
      [CHR 0xF0, CHR 0x9F, CHR 0x98, CHR 0x8A],
      [CHR 0xF0, CHR 0x9F, CHR 0x8E, CHR 0x89],
      [CHR 0xF0, CHR 0x9F, CHR 0x98, CHR 0x81],
      [CHR 0xF0, CHR 0x9F, CHR 0x92, CHR 0x95],
      [CHR 0xF0, CHR 0x9F, CHR 0xA5, CHR 0xBA],
      [CHR 0xF0, CHR 0x9F, CHR 0x98, CHR 0x85],
      [CHR 0xF0, CHR 0x9F, CHR 0x94, CHR 0xA5],
      [CHR 0xE2, CHR 0x9C, CHR 0xA8],
      [CHR 0xF0, CHR 0x9F, CHR 0x92, CHR 0x96],
      [CHR 0xF0, CHR 0x9F, CHR 0x91, CHR 0x80],
      [CHR 0xF0, CHR 0x9F, CHR 0x98, CHR 0x8B],
      [CHR 0xF0, CHR 0x9F, CHR 0x99, CHR 0x82],
      [CHR 0xF0, CHR 0x9F, CHR 0x98, CHR 0xB3],
      [CHR 0xF0, CHR 0x9F, CHR 0xA5, CHR 0xB3],
      [CHR 0xF0, CHR 0x9F, CHR 0x98, CHR 0x8E]]"

text \<open>
  \<open>getCommon\<close>: \<open>null\<close> for a curated glyph that \<open>findIndex\<close> does not find, the record of
  the first entry with that glyph otherwise; \<open>filter(Boolean)\<close> drops the \<open>null\<close>s.
\<close>

definition getCommon :: "EmojiSearcher \<Rightarrow> error + HumanReadableEmoji list" where
  "getCommon s =
     (case mapE (\<lambda>g. case findIndex (\<lambda>e. entry_emoji e = g) (emojis (emojiList s)) of
                        None \<Rightarrow> Inr None
                      | Some idx \<Rightarrow> map_sum id Some (intoHumanReadable s idx None))
             commonEmojis of
        Inl err \<Rightarrow> Inl err
      | Inr rs \<Rightarrow> Inr (List.map_filter id rs))"

section \<open>The caller (emoji-selector.tsx)\<close>

text \<open>
  \<open>a.weight\<close> in a condition: \<open>undefined\<close> and 0 are falsy. \<open>weightNumber\<close> reads the weight
  as a number, 0 when it is absent, so that the weight is truthy when the number is not 0.
\<close>

definition weightNumber :: "HumanReadableEmoji \<Rightarrow> nat" where
  "weightNumber r = (case weight r of None \<Rightarrow> 0 | Some n \<Rightarrow> n)"

text \<open>
  The comparator \<open>throttledSearch\<close> passes to \<open>sort\<close>. \<open>String.prototype.localeCompare\<close>
  belongs to the runtime, not to the repository: it is a parameter.
\<close>

definition compareFn ::
  "(string \<Rightarrow> string \<Rightarrow> int) \<Rightarrow> HumanReadableEmoji \<Rightarrow> HumanReadableEmoji \<Rightarrow> int" where
  "compareFn localeCompare a b =
     (if weightNumber a \<noteq> 0 \<and> weightNumber b \<noteq> 0 then int (weightNumber b) - int (weightNumber a)
      else if weightNumber a \<noteq> 0 then - 1
      else if weightNumber b \<noteq> 0 then 1
      else localeCompare (emoji a) (emoji b))"

text \<open>
  \<open>Array.prototype.sort\<close> is stable: with a consistent comparator its result is the one
  stable arrangement, which insertion from the right computes.
\<close>

fun insertSorted :: "('a \<Rightarrow> 'a \<Rightarrow> int) \<Rightarrow> 'a \<Rightarrow> 'a list \<Rightarrow> 'a list" where
  "insertSorted cmp x [] = [x]"
| "insertSorted cmp x (y # ys) =
     (if cmp x y \<le> 0 then x # y # ys else y # insertSorted cmp x ys)"

definition arraySort :: "('a \<Rightarrow> 'a \<Rightarrow> int) \<Rightarrow> 'a list \<Rightarrow> 'a list" where
  "arraySort cmp xs = foldr (insertSorted cmp) xs []"

text \<open>
  The body of \<open>throttledSearch\<close>; the result is the argument it passes to \<open>update\<close>
  (\<open>None\<close> for \<open>null\<close>). The input may be \<open>null\<close> or \<open>undefined\<close>; the delay of the throttle
  is not part of the model.
\<close>

definition throttledSearch ::
  "StringMethods \<Rightarrow> (string \<Rightarrow> string \<Rightarrow> int) \<Rightarrow> EmojiSearcher \<Rightarrow> string option \<Rightarrow>
     error + HumanReadableEmoji list option" where
  "throttledSearch rt localeCompare searcher input =
     (case map_option (trim rt) input of
        None \<Rightarrow> Inr None
      | Some trimmed \<Rightarrow>
          if trimmed = [] then Inr None
          else (case search rt searcher trimmed of
                  Inl err \<Rightarrow> Inl err
                | Inr result \<Rightarrow>
                    Inr (Some (take 32 (arraySort (compareFn localeCompare) result)))))"

section \<open>Properties\<close>

text \<open>
  The predicates and functions in which the properties of the engine are stated: the
  invariants of the catalog, of the tries and of the vote object, the signals of the
  ranking table, and the record a position of a valid catalog materialises to.
\<close>

text \<open>No node of the trie lists a record twice.\<close>

fun dedup :: "TrieNode \<Rightarrow> bool" where
  "dedup (TrieNode cs out) = (distinct out \<and> list_all (\<lambda>(c, t). dedup t) cs)"

text \<open>
  The invariant of the catalog (every index a record holds is an offset into its table),
  and the three substring signals in the words of the specification.
\<close>

definition validEntry :: "ReducedEmojiList \<Rightarrow> EmojiEntry \<Rightarrow> bool" where
  "validEntry el e =
     (entry_category e < length (category el) \<and>
      entry_category e < length (subCategory el) \<and>
      entry_subCategory e < length (subCategory el ! entry_category e) \<and>
      list_all (\<lambda>k. k < length (keywords_tbl el)) (entry_keywords e))"

definition validCatalog :: "ReducedEmojiList \<Rightarrow> bool" where
  "validCatalog el = list_all (validEntry el) (emojis el)"

definition nameContains :: "StringMethods \<Rightarrow> ReducedEmojiList \<Rightarrow> string \<Rightarrow> nat \<Rightarrow> bool" where
  "nameContains rt el q i = sublist q (toLowerCase rt (entry_name (emojis el ! i)))"

definition keywordContains :: "StringMethods \<Rightarrow> ReducedEmojiList \<Rightarrow> string \<Rightarrow> nat \<Rightarrow> bool" where
  "keywordContains rt el q i =
     list_ex (\<lambda>k. sublist q (toLowerCase rt (keywords_tbl el ! k))) (entry_keywords (emojis el ! i))"

definition categoryContains :: "StringMethods \<Rightarrow> ReducedEmojiList \<Rightarrow> string \<Rightarrow> nat \<Rightarrow> bool" where
  "categoryContains rt el q i =
     (let e = emojis el ! i in
      sublist q (toLowerCase rt (category el ! entry_category e)) \<or>
      sublist q (toLowerCase rt (subCategory el ! entry_category e ! entry_subCategory e)))"

text \<open>What one pass of the loop body does to an engine.\<close>

definition entryStep :: "StringMethods \<Rightarrow> nat \<Rightarrow> string \<Rightarrow> EmojiSearcher \<Rightarrow> EmojiSearcher \<Rightarrow> bool" where
  "entryStep rt i q s s' =
     (let el = emojiList s in
      emojiList s' = el \<and>
      validEntry el (emojis el ! i) \<and>
      map_of (nameMap s') = (map_of (nameMap s))(entry_name (emojis el ! i) \<mapsto> i) \<and>
      (dedup (nameTrieRoot s) \<longrightarrow> dedup (nameTrieRoot s')) \<and>
      (dedup (keywordTrieRoot s) \<longrightarrow> dedup (keywordTrieRoot s')) \<and>
      (dedup (categoryTrieRoot s) \<longrightarrow> dedup (categoryTrieRoot s')) \<and>
      set (searchTrie (nameTrieRoot s') q) =
        set (searchTrie (nameTrieRoot s) q) \<union>
        (if q \<noteq> [] \<and> nameContains rt el q i then {i} else {}) \<and>
      set (searchTrie (keywordTrieRoot s') q) =
        set (searchTrie (keywordTrieRoot s) q) \<union>
        (if q \<noteq> [] \<and> keywordContains rt el q i then {i} else {}) \<and>
      set (searchTrie (categoryTrieRoot s') q) =
        set (searchTrie (categoryTrieRoot s) q) \<union>
        (if q \<noteq> [] \<and> categoryContains rt el q i then {i} else {}))"

text \<open>What the loop does over a list of positions.\<close>

definition loopSteps :: "StringMethods \<Rightarrow> nat list \<Rightarrow> string \<Rightarrow> EmojiSearcher \<Rightarrow> EmojiSearcher \<Rightarrow> bool" where
  "loopSteps rt js q s s' =
     (let el = emojiList s in
      emojiList s' = el \<and>
      list_all (\<lambda>i. validEntry el (emojis el ! i)) js \<and>
      map_of (nameMap s') =
        fold (\<lambda>i m. m(entry_name (emojis el ! i) \<mapsto> i)) js (map_of (nameMap s)) \<and>
      (dedup (nameTrieRoot s) \<longrightarrow> dedup (nameTrieRoot s')) \<and>
      (dedup (keywordTrieRoot s) \<longrightarrow> dedup (keywordTrieRoot s')) \<and>
      (dedup (categoryTrieRoot s) \<longrightarrow> dedup (categoryTrieRoot s')) \<and>
      set (searchTrie (nameTrieRoot s') q) =
        set (searchTrie (nameTrieRoot s) q) \<union> {i \<in> set js. q \<noteq> [] \<and> nameContains rt el q i} \<and>
      set (searchTrie (keywordTrieRoot s') q) =
        set (searchTrie (keywordTrieRoot s) q) \<union> {i \<in> set js. q \<noteq> [] \<and> keywordContains rt el q i} \<and>
      set (searchTrie (categoryTrieRoot s') q) =
        set (searchTrie (categoryTrieRoot s) q) \<union>
        {i \<in> set js. q \<noteq> [] \<and> categoryContains rt el q i})"

text \<open>The record a name leads to in a fresh name map: the last one that carries it.\<close>

definition lastWithName :: "ReducedEmojiList \<Rightarrow> nat \<Rightarrow> bool" where
  "lastWithName el i =
     (i < length (emojis el) \<and>
      list_all (\<lambda>j. entry_name (emojis el ! j) \<noteq> entry_name (emojis el ! i))
        [Suc i..<length (emojis el)])"

text \<open>Everything the later proofs need to know about a freshly built engine.\<close>

definition builtFrom :: "StringMethods \<Rightarrow> ReducedEmojiList \<Rightarrow> string \<Rightarrow> EmojiSearcher \<Rightarrow> bool" where
  "builtFrom rt el q s =
     (emojiList s = el \<and> validCatalog el \<and>
      dedup (nameTrieRoot s) \<and> dedup (keywordTrieRoot s) \<and> dedup (categoryTrieRoot s) \<and>
      set (searchTrie (nameTrieRoot s) q) =
        {i. i < length (emojis el) \<and> q \<noteq> [] \<and> nameContains rt el q i} \<and>
      set (searchTrie (keywordTrieRoot s) q) =
        {i. i < length (emojis el) \<and> q \<noteq> [] \<and> keywordContains rt el q i} \<and>
      set (searchTrie (categoryTrieRoot s) q) =
        {i. i < length (emojis el) \<and> q \<noteq> [] \<and> categoryContains rt el q i})"

text \<open>The weight a record has gathered: \<open>resultVotes[idx] || 0\<close>.\<close>

definition voteOf :: "(nat \<times> nat) list \<Rightarrow> nat \<Rightarrow> nat" where
  "voteOf votes idx = (case map_of votes idx of None \<Rightarrow> 0 | Some w \<Rightarrow> w)"

text \<open>The invariant of the vote object: keys ascending, every stored weight positive.\<close>

definition votesOK :: "(nat \<times> nat) list \<Rightarrow> bool" where
  "votesOK votes = (sorted_wrt (<) (map fst votes) \<and> list_all (\<lambda>(k, v). 0 < v) votes)"

text \<open>
  The exact-keyword signal as the code computes it: \<open>keywords.indexOf(input)\<close> is the first
  position that holds the string, and the record must reference that position.
\<close>

definition exactKeyword :: "ReducedEmojiList \<Rightarrow> string \<Rightarrow> nat \<Rightarrow> bool" where
  "exactKeyword el input i =
     (case indexOf (keywords_tbl el) input of
        None \<Rightarrow> False
      | Some k \<Rightarrow> k \<in> set (entry_keywords (emojis el ! i)))"

text \<open>
  The sum of the five signals of the ranking table for the record at position \<open>i\<close>: the
  exact ones compare \<open>input\<close> as it was passed, the substring ones take
  \<open>input.trim().toLowerCase()\<close>.
\<close>

definition totalWeight :: "StringMethods \<Rightarrow> ReducedEmojiList \<Rightarrow> string \<Rightarrow> nat \<Rightarrow> nat" where
  "totalWeight rt el input i =
     (let lowerInput = toLowerCase rt (trim rt input) in
      (if lastWithName el i \<and> entry_name (emojis el ! i) = input then 5 else 0) +
      (if exactKeyword el input i then 4 else 0) +
      (if nameContains rt el lowerInput i then 3 else 0) +
      (if keywordContains rt el lowerInput i then 2 else 0) +
      (if categoryContains rt el lowerInput i then 1 else 0))"

text \<open>
  The record \<open>intoHumanReadable\<close> returns for a position of a valid catalog: every index
  resolves, nothing is \<open>undefined\<close>.
\<close>

definition humanReadable :: "ReducedEmojiList \<Rightarrow> nat \<Rightarrow> nat option \<Rightarrow> HumanReadableEmoji" where
  "humanReadable el i w =
     (let e = emojis el ! i in
      \<lparr>emoji = entry_emoji e,
       name = entry_name e,
       category_name = Some (category el ! entry_category e),
       subcategory = Some (subCategory el ! entry_category e ! entry_subCategory e),
       keyword_names = map (\<lambda>k. Some (keywords_tbl el ! k)) (entry_keywords e),
       image_info = fromEmojiImageArr (entry_image e),
       weight = w\<rparr>)"

text \<open>
  The spec's ranking as a function of the catalog: the positions whose weight exceeds 3,
  in ascending order, each with its weight.
\<close>

definition rankedEntries :: "StringMethods \<Rightarrow> ReducedEmojiList \<Rightarrow> string \<Rightarrow> (nat \<times> nat) list" where
  "rankedEntries rt el input =
     filter (\<lambda>(i, w). 3 < w)
       (map (\<lambda>i. (i, totalWeight rt el input i)) [0..<length (emojis el)])"

text \<open>The positions \<open>search\<close> hands to \<open>intoHumanReadable\<close>, in the order of its result.\<close>

definition searchIds :: "StringMethods \<Rightarrow> EmojiSearcher \<Rightarrow> string \<Rightarrow> nat list" where
  "searchIds rt s input =
     (if toLowerCase rt (trim rt input) = [] then [0..<length (emojis (emojiList s))]
      else map fst (searchEntries rt s input))"

text \<open>What the callback of \<open>getCommon\<close> yields for a curated glyph over a valid catalog.\<close>

definition commonRecord :: "ReducedEmojiList \<Rightarrow> string \<Rightarrow> HumanReadableEmoji option" where
  "commonRecord el g =
     (case findIndex (\<lambda>e. entry_emoji e = g) (emojis el) of
        None \<Rightarrow> None
      | Some idx \<Rightarrow> Some (humanReadable el idx None))"

section \<open>Example catalogs\<close>

text \<open>
  Small catalogs on which the functions are evaluated. Where an engine is written out, a
  lemma below (\<open>tiny_built\<close>, \<open>dup_built\<close>, ...) checks that it is what the constructor
  builds from the catalog.
\<close>

text \<open>
  A catalog of one record whose strings are single letters, and the engine the constructor
  builds from it.
\<close>

definition tinyList :: ReducedEmojiList where
  "tinyList =
     \<lparr>category = [''c''], subCategory = [[''s'']], keywords_tbl = [''k''],
      emojis = [EmojiEntry ''x'' ''a'' 0 0 [0] None]\<rparr>"

definition tinyEngine :: EmojiSearcher where
  "tinyEngine =
     \<lparr>nameTrieRoot = TrieNode [(CHR ''a'', TrieNode [] [0])] [],
      keywordTrieRoot = TrieNode [(CHR ''k'', TrieNode [] [0])] [],
      categoryTrieRoot = TrieNode [(CHR ''c'', TrieNode [] [0]), (CHR ''s'', TrieNode [] [0])] [],
      nameMap = [(''a'', 0)], emojiList = tinyList\<rparr>"

text \<open>
  The example of the specification: one record, \<open>party popper\<close>, with the keyword
  \<open>celebration\<close>. Its engine is named through the constructor, not written out.
\<close>

definition partyList :: ReducedEmojiList where
  "partyList =
     \<lparr>category = [''Activities''], subCategory = [[''event'']],
      keywords_tbl = [''celebration''],
      emojis =
        [EmojiEntry [CHR 0xF0, CHR 0x9F, CHR 0x8E, CHR 0x89] ''party popper'' 0 0 [0] None]\<rparr>"

definition partyEngine :: EmojiSearcher where
  "partyEngine = projr (newEmojiSearcher asciiMethods partyList None)"

text \<open>Two records that share the name \<open>a\<close>, and the engine built from them.\<close>

definition dupList :: ReducedEmojiList where
  "dupList =
     \<lparr>category = [''c''], subCategory = [[''s'']], keywords_tbl = [''k''],
      emojis = [EmojiEntry ''x'' ''a'' 0 0 [0] None, EmojiEntry ''y'' ''a'' 0 0 [0] None]\<rparr>"

definition dupEngine :: EmojiSearcher where
  "dupEngine =
     \<lparr>nameTrieRoot = TrieNode [(CHR ''a'', TrieNode [] [0, 1])] [],
      keywordTrieRoot = TrieNode [(CHR ''k'', TrieNode [] [0, 1])] [],
      categoryTrieRoot =
        TrieNode [(CHR ''c'', TrieNode [] [0, 1]), (CHR ''s'', TrieNode [] [0, 1])] [],
      nameMap = [(''a'', 1)], emojiList = dupList\<rparr>"

text \<open>
  A keyword table that holds the string \<open>k\<close> twice; the first record references the first
  copy, the second record the second.
\<close>

definition dupKeywordList :: ReducedEmojiList where
  "dupKeywordList =
     \<lparr>category = [''c''], subCategory = [[''s'']], keywords_tbl = [''k'', ''k''],
      emojis = [EmojiEntry ''x'' ''a'' 0 0 [0] None, EmojiEntry ''y'' ''b'' 0 0 [1] None]\<rparr>"

definition dupKeywordEngine :: EmojiSearcher where
  "dupKeywordEngine =
     \<lparr>nameTrieRoot = TrieNode [(CHR ''a'', TrieNode [] [0]), (CHR ''b'', TrieNode [] [1])] [],
      keywordTrieRoot = TrieNode [(CHR ''k'', TrieNode [] [0, 1])] [],
      categoryTrieRoot =
        TrieNode [(CHR ''c'', TrieNode [] [0, 1]), (CHR ''s'', TrieNode [] [0, 1])] [],
      nameMap = [(''a'', 0), (''b'', 1)], emojiList = dupKeywordList\<rparr>"

text \<open>A catalog with two curated glyphs, in the opposite order, around a record that is not curated.\<close>

definition fireList :: ReducedEmojiList where
  "fireList =
     \<lparr>category = [''c''], subCategory = [[''s'']], keywords_tbl = [''k''],
      emojis =
        [EmojiEntry [CHR 0xF0, CHR 0x9F, CHR 0x94, CHR 0xA5] ''f'' 0 0 [0] None,
         EmojiEntry ''x'' ''a'' 0 0 [0] None,
         EmojiEntry [CHR 0xF0, CHR 0x9F, CHR 0x98, CHR 0x82] ''j'' 0 0 [0] None]\<rparr>"

definition fireEngine :: EmojiSearcher where
  "fireEngine =
     \<lparr>nameTrieRoot =
        TrieNode
          [(CHR ''f'', TrieNode [] [0]), (CHR ''a'', TrieNode [] [1]),
           (CHR ''j'', TrieNode [] [2])] [],
      keywordTrieRoot = TrieNode [(CHR ''k'', TrieNode [] [0, 1, 2])] [],
      categoryTrieRoot =
        TrieNode [(CHR ''c'', TrieNode [] [0, 1, 2]), (CHR ''s'', TrieNode [] [0, 1, 2])] [],
      nameMap = [(''f'', 0), (''a'', 1), (''j'', 2)], emojiList = fireList\<rparr>"

text \<open>
  An instance of the \<open>localeCompare\<close> parameter of \<open>compareFn\<close>: comparison by character
  code, the lexicographic order.
\<close>

fun lexCompare :: "string \<Rightarrow> string \<Rightarrow> int" where
  "lexCompare [] [] = 0"
| "lexCompare [] (y # ys) = - 1"
| "lexCompare (x # xs) [] = 1"
| "lexCompare (x # xs) (y # ys) =
     (if (of_char x :: nat) < of_char y then - 1
      else if (of_char y :: nat) < of_char x then 1
      else lexCompare xs ys)"

text \<open>
  Three records that match the query \<open>x\<close>: the first two with weight 4 and the glyphs
  \<open>b\<close> and \<open>a\<close>, the third with weight 9.
\<close>

definition rankList :: ReducedEmojiList where
  "rankList =
     \<lparr>category = [''xx''], subCategory = [[''s'']], keywords_tbl = [''k''],
      emojis =
        [EmojiEntry ''b'' ''xb'' 0 0 [0] None,
         EmojiEntry ''a'' ''xa'' 0 0 [0] None,
         EmojiEntry ''c'' ''x'' 0 0 [0] None]\<rparr>"

definition rankEngine :: EmojiSearcher where
  "rankEngine =
     \<lparr>nameTrieRoot =
        TrieNode
          [(CHR ''x'',
            TrieNode [(CHR ''b'', TrieNode [] [0]), (CHR ''a'', TrieNode [] [1])] [0, 1, 2]),
           (CHR ''b'', TrieNode [] [0]), (CHR ''a'', TrieNode [] [1])] [],
      keywordTrieRoot = TrieNode [(CHR ''k'', TrieNode [] [0, 1, 2])] [],
      categoryTrieRoot =
        TrieNode
          [(CHR ''x'', TrieNode [(CHR ''x'', TrieNode [] [0, 1, 2])] [0, 1, 2]),
           (CHR ''s'', TrieNode [] [0, 1, 2])] [],
      nameMap = [(''xb'', 0), (''xa'', 1), (''x'', 2)], emojiList = rankList\<rparr>"

section \<open>The ASCII instance\<close>

lemma asciiTrim_idem: "asciiTrim (asciiTrim s) = asciiTrim s"
proof -
  let ?W = isWhiteSpace
  let ?u = "dropWhile ?W s"
  let ?v = "dropWhile ?W (rev ?u)"
  have t: "asciiTrim s = rev ?v" by (simp add: asciiTrim_def)
  show ?thesis
  proof (cases "?v = []")
    case True
    then have "asciiTrim s = []" by (simp add: t)
    moreover have "asciiTrim [] = []" by (simp add: asciiTrim_def)
    ultimately show ?thesis by simp
  next
    case False
    have u: "?u \<noteq> []"
    proof
      assume a: "?u = []"
      have "?v = dropWhile ?W (rev [])" by (simp only: a)
      then have "?v = []" by (simp only: rev.simps dropWhile.simps)
      with False show False by (simp only:)
    qed
    have hv: "\<not> ?W (hd ?v)" using False by (rule hd_dropWhile)
    have "rev ?u = takeWhile ?W (rev ?u) @ ?v" by simp
    then have "last (rev ?u) = last ?v"
      using False by (metis last_appendR)
    then have "last ?v = hd ?u" using u by (simp add: last_rev)
    moreover have "\<not> ?W (hd ?u)" using u by (rule hd_dropWhile)
    ultimately have lv: "\<not> ?W (last ?v)" by simp
    have "hd (rev ?v) = last ?v" using False by (simp add: hd_rev)
    with lv have 1: "dropWhile ?W (rev ?v) = rev ?v"
      by (simp add: dropWhile_eq_self_iff)
    have 2: "dropWhile ?W ?v = ?v" by simp
    show ?thesis
      unfolding t by (simp add: asciiTrim_def[of "rev ?v"] 1 2)
  qed
qed

lemma asciiMethods_ok: "stringMethodsOK asciiMethods"
  by (simp add: stringMethodsOK_def asciiMethods_def asciiTrim_idem asciiToLowerCase_def)

lemma blank_iff:
  "stringMethodsOK rt \<Longrightarrow> toLowerCase rt (trim rt input) = [] \<longleftrightarrow> trim rt input = []"
  by (simp add: stringMethodsOK_def)

section \<open>The suffix trie as a substring index\<close>

lemma searchTrie_Nil: "searchTrie node [] = output_ids node"
  by (simp add: searchTrie_def)

lemma searchTrie_Cons:
  "searchTrie node (c # q) =
     (case map_of (children node) c of None \<Rightarrow> [] | Some n \<Rightarrow> searchTrie n q)"
  by (simp add: searchTrie_def split: option.splits)

lemma searchTrie_empty: "searchTrie (TrieNode [] []) q = []"
  by (cases q) (simp_all add: searchTrie_Nil searchTrie_Cons)

lemma searchTrie_pushOutput:
  "set (searchTrie (pushOutput n i) q) = set (searchTrie n q) \<union> (if q = [] then {i} else {})"
  by (cases q) (auto simp: searchTrie_Nil searchTrie_Cons pushOutput_def)

lemma searchTrie_insertSuffix:
  "set (searchTrie (insertSuffix node s i) q) =
     set (searchTrie node q) \<union> (if q \<noteq> [] \<and> prefix q s then {i} else {})"
proof (induction s arbitrary: node q)
  case Nil
  then show ?case by (cases q) auto
next
  case (Cons ch rest)
  show ?case
  proof (cases q)
    case Nil
    then show ?thesis by (simp add: searchTrie_Nil Let_def)
  next
    case q: (Cons c q')
    show ?thesis
    proof (cases "c = ch")
      case False
      then show ?thesis
        by (simp add: q searchTrie_Cons Let_def update_conv)
    next
      case True
      show ?thesis
      proof (cases "map_of (children node) ch")
        case None
        then show ?thesis
          using True
          by (auto simp: q searchTrie_Cons Let_def update_conv Cons.IH
              searchTrie_pushOutput searchTrie_empty)
      next
        case (Some child)
        then show ?thesis
          using True
          by (auto simp: q searchTrie_Cons Let_def update_conv Cons.IH
              searchTrie_pushOutput)
      qed
    qed
  qed
qed

lemma searchTrie_fold_insertSuffix:
  "set (searchTrie (fold (\<lambda>s r. insertSuffix r s i) ss node) q) =
     set (searchTrie node q) \<union> (if q \<noteq> [] \<and> (\<exists>s \<in> set ss. prefix q s) then {i} else {})"
  by (induction ss arbitrary: node) (auto simp: searchTrie_insertSuffix)

lemma insertIntoTrie_fold:
  "insertIntoTrie root str i =
     fold (\<lambda>s r. insertSuffix r s i) (map (\<lambda>start. drop start str) [0..<length str]) root"
  by (simp add: insertIntoTrie_def fold_map comp_def)

lemma sublist_iff_prefix_drop:
  "q \<noteq> [] \<Longrightarrow> sublist q str \<longleftrightarrow> (\<exists>start < length str. prefix q (drop start str))"
proof
  assume ne: "q \<noteq> []" and "sublist q str"
  then obtain ps ss where str: "str = ps @ q @ ss" by (auto simp: sublist_def)
  with ne have "length ps < length str" by (cases q) auto
  moreover have "prefix q (drop (length ps) str)" by (simp add: str)
  ultimately show "\<exists>start < length str. prefix q (drop start str)" by blast
next
  assume "\<exists>start < length str. prefix q (drop start str)"
  then obtain start where "prefix q (drop start str)" by blast
  then have "sublist q (drop start str)" by (rule prefix_imp_sublist)
  then show "sublist q str" by (meson sublist_drop sublist_order.order_trans)
qed

lemma searchTrie_insertIntoTrie:
  "set (searchTrie (insertIntoTrie root str i) q) =
     set (searchTrie root q) \<union> (if q \<noteq> [] \<and> sublist q str then {i} else {})"
  unfolding insertIntoTrie_fold searchTrie_fold_insertSuffix
  by (auto simp: sublist_iff_prefix_drop)

lemma dedup_sel: "dedup node \<longleftrightarrow> distinct (output_ids node) \<and> (\<forall>(c, t) \<in> set (children node). dedup t)"
  by (cases node) (auto simp: list_all_iff)

lemma dedup_pushOutput: "dedup node \<Longrightarrow> dedup (pushOutput node i)"
  by (cases node) (simp add: pushOutput_def)

lemma set_update_subset: "set (AList.update k v al) \<subseteq> insert (k, v) (set al)"
  by (induction al) auto

lemma dedup_insertSuffix: "dedup node \<Longrightarrow> dedup (insertSuffix node s i)"
proof (induction s arbitrary: node)
  case Nil
  then show ?case by simp
next
  case (Cons ch rest)
  let ?child = "case map_of (children node) ch of None \<Rightarrow> TrieNode [] [] | Some c \<Rightarrow> c"
  have "dedup ?child"
    using Cons.prems by (auto simp: dedup_sel[of node] split: option.splits dest: map_of_SomeD)
  then have "dedup (insertSuffix (pushOutput ?child i) rest i)"
    by (intro Cons.IH dedup_pushOutput)
  with Cons.prems show ?case
    using set_update_subset[of ch "insertSuffix (pushOutput ?child i) rest i" "children node"]
    by (simp add: Let_def dedup_sel[of node] list_all_iff) blast
qed

lemma dedup_insertIntoTrie: "dedup root \<Longrightarrow> dedup (insertIntoTrie root str i)"
proof -
  have "dedup node \<Longrightarrow> dedup (fold (\<lambda>s r. insertSuffix r s i) ss node)" for ss node
    by (induction ss arbitrary: node) (auto simp: dedup_insertSuffix)
  then show "dedup root \<Longrightarrow> dedup (insertIntoTrie root str i)"
    by (simp add: insertIntoTrie_fold)
qed

lemma dedup_child: "dedup root \<Longrightarrow> map_of (children root) c = Some n \<Longrightarrow> dedup n"
  using map_of_SomeD[of "children root" c n] by (auto simp: dedup_sel[of root])

lemma dedup_searchTrie: "dedup root \<Longrightarrow> distinct (searchTrie root q)"
proof (induction q arbitrary: root)
  case Nil
  then show ?case by (simp add: searchTrie_Nil dedup_sel[of root])
next
  case (Cons c q)
  show ?case
  proof (cases "map_of (children root) c")
    case None
    then show ?thesis by (simp add: searchTrie_Cons)
  next
    case (Some n)
    with Cons.prems have "dedup n" by (rule dedup_child)
    then show ?thesis using Some by (simp add: searchTrie_Cons Cons.IH)
  qed
qed

section \<open>Building the index\<close>

lemma insertKeywords_Inr:
  "insertKeywords rt kws ks i root = Inr root' \<Longrightarrow>
     list_all (\<lambda>k. k < length kws) ks \<and>
     (dedup root \<longrightarrow> dedup root') \<and>
     set (searchTrie root' q) =
       set (searchTrie root q) \<union>
       (if q \<noteq> [] \<and> list_ex (\<lambda>k. sublist q (toLowerCase rt (kws ! k))) ks then {i} else {})"
proof (induction ks arbitrary: root)
  case Nil
  then show ?case by simp
next
  case (Cons k ks)
  from Cons.prems have k: "k < length kws"
    by (simp add: nth_opt_def split: if_splits)
  with Cons.prems have
    rest: "insertKeywords rt kws ks i (insertIntoTrie root (toLowerCase rt (kws ! k)) i) = Inr root'"
    by (simp add: nth_opt_def)
  note IH = Cons.IH[OF rest]
  show ?case
    using k IH by (auto simp: searchTrie_insertIntoTrie dedup_insertIntoTrie)
qed

lemma insertKeywords_total:
  "list_all (\<lambda>k. k < length kws) ks \<Longrightarrow> \<exists>root'. insertKeywords rt kws ks i root = Inr root'"
  by (induction ks arbitrary: root) (auto simp: nth_opt_def)

lemma buildEntry_Inr:
  assumes "buildEntry rt i s = Inr s'"
  shows "entryStep rt i q s s'"
proof -
  let ?el = "emojiList s"
  let ?e = "emojis ?el ! i"
  from assms obtain kt subs cn sn where
    kt: "insertKeywords rt (keywords_tbl ?el) (entry_keywords ?e) i (keywordTrieRoot s) = Inr kt" and
    subs: "nth_opt (subCategory ?el) (entry_category ?e) = Some subs" and
    cn: "nth_opt (category ?el) (entry_category ?e) = Some cn" and
    sn: "nth_opt subs (entry_subCategory ?e) = Some sn" and
    s': "s' = s\<lparr>nameMap := AList.update (entry_name ?e) i (nameMap s),
                  nameTrieRoot := insertIntoTrie (nameTrieRoot s) (toLowerCase rt (entry_name ?e)) i,
                  keywordTrieRoot := kt,
                  categoryTrieRoot :=
                    insertIntoTrie (insertIntoTrie (categoryTrieRoot s) (toLowerCase rt cn) i)
                      (toLowerCase rt sn) i\<rparr>"
    by (auto simp: buildEntry_def Let_def split: sum.splits option.splits)
  note K = insertKeywords_Inr[OF kt, of q]
  from subs have c2: "entry_category ?e < length (subCategory ?el)"
    and subs_eq: "subs = subCategory ?el ! entry_category ?e"
    by (auto simp: nth_opt_def split: if_splits)
  from cn have c1: "entry_category ?e < length (category ?el)"
    and cn_eq: "cn = category ?el ! entry_category ?e"
    by (auto simp: nth_opt_def split: if_splits)
  from sn have c3: "entry_subCategory ?e < length subs" and sn_eq: "sn = subs ! entry_subCategory ?e"
    by (auto simp: nth_opt_def split: if_splits)
  have valid: "validEntry ?el ?e"
    using K c1 c2 c3 subs_eq by (simp add: validEntry_def)
  have nm: "map_of (nameMap s') = (map_of (nameMap s))(entry_name ?e \<mapsto> i)"
    by (simp add: s' update_conv')
  have d1: "dedup (nameTrieRoot s) \<longrightarrow> dedup (nameTrieRoot s')"
    by (simp add: s' dedup_insertIntoTrie)
  have d2: "dedup (keywordTrieRoot s) \<longrightarrow> dedup (keywordTrieRoot s')"
    using K by (simp add: s')
  have d3: "dedup (categoryTrieRoot s) \<longrightarrow> dedup (categoryTrieRoot s')"
    by (simp add: s' dedup_insertIntoTrie)
  have t1: "set (searchTrie (nameTrieRoot s') q) =
        set (searchTrie (nameTrieRoot s) q) \<union>
        (if q \<noteq> [] \<and> nameContains rt ?el q i then {i} else {})"
    by (simp add: s' searchTrie_insertIntoTrie nameContains_def)
  have t2: "set (searchTrie (keywordTrieRoot s') q) =
        set (searchTrie (keywordTrieRoot s) q) \<union>
        (if q \<noteq> [] \<and> keywordContains rt ?el q i then {i} else {})"
    using K by (simp add: s' keywordContains_def)
  have t3: "set (searchTrie (categoryTrieRoot s') q) =
        set (searchTrie (categoryTrieRoot s) q) \<union>
        (if q \<noteq> [] \<and> categoryContains rt ?el q i then {i} else {})"
    by (auto simp: s' searchTrie_insertIntoTrie categoryContains_def Let_def cn_eq sn_eq subs_eq)
  have el: "emojiList s' = ?el" by (simp add: s')
  show ?thesis
    unfolding entryStep_def Let_def
    using el valid nm d1 d2 d3 t1 t2 t3 by blast
qed

lemma buildEntry_total:
  assumes "validEntry (emojiList s) (emojis (emojiList s) ! i)"
  shows "\<exists>s'. buildEntry rt i s = Inr s'"
proof -
  let ?el = "emojiList s"
  let ?e = "emojis ?el ! i"
  from assms obtain kt where
    "insertKeywords rt (keywords_tbl ?el) (entry_keywords ?e) i (keywordTrieRoot s) = Inr kt"
    using insertKeywords_total[of "keywords_tbl ?el" "entry_keywords ?e" rt i "keywordTrieRoot s"]
    by (auto simp: validEntry_def)
  with assms show ?thesis
    by (simp add: buildEntry_def Let_def validEntry_def nth_opt_def)
qed

lemma loopSteps_Nil: "loopSteps rt [] q s s"
  by (simp add: loopSteps_def)

lemma loopSteps_Cons:
  assumes "entryStep rt i q s s1" and "loopSteps rt js q s1 s'"
  shows "loopSteps rt (i # js) q s s'"
proof -
  let ?el = "emojiList s"
  from assms(1) have el1: "emojiList s1 = ?el"
    by (simp add: entryStep_def Let_def)
  note E = assms(1)[unfolded entryStep_def Let_def]
  note L = assms(2)[unfolded loopSteps_def Let_def el1]
  have 1: "emojiList s' = ?el" using L by blast
  have 2: "list_all (\<lambda>i. validEntry ?el (emojis ?el ! i)) (i # js)"
    using E L by simp
  have 3: "map_of (nameMap s') =
        fold (\<lambda>i m. m(entry_name (emojis ?el ! i) \<mapsto> i)) (i # js) (map_of (nameMap s))"
    using E L by simp
  have 4: "dedup (nameTrieRoot s) \<longrightarrow> dedup (nameTrieRoot s')"
    using E L by blast
  have 5: "dedup (keywordTrieRoot s) \<longrightarrow> dedup (keywordTrieRoot s')"
    using E L by blast
  have 6: "dedup (categoryTrieRoot s) \<longrightarrow> dedup (categoryTrieRoot s')"
    using E L by blast
  have n1: "set (searchTrie (nameTrieRoot s1) q) =
        set (searchTrie (nameTrieRoot s) q) \<union>
        (if q \<noteq> [] \<and> nameContains rt ?el q i then {i} else {})"
    using E by blast
  have n2: "set (searchTrie (nameTrieRoot s') q) =
        set (searchTrie (nameTrieRoot s1) q) \<union> {i \<in> set js. q \<noteq> [] \<and> nameContains rt ?el q i}"
    using L by blast
  have 7: "set (searchTrie (nameTrieRoot s') q) =
        set (searchTrie (nameTrieRoot s) q) \<union>
        {j \<in> set (i # js). q \<noteq> [] \<and> nameContains rt ?el q j}"
    unfolding n2 n1 by auto
  have k1: "set (searchTrie (keywordTrieRoot s1) q) =
        set (searchTrie (keywordTrieRoot s) q) \<union>
        (if q \<noteq> [] \<and> keywordContains rt ?el q i then {i} else {})"
    using E by blast
  have k2: "set (searchTrie (keywordTrieRoot s') q) =
        set (searchTrie (keywordTrieRoot s1) q) \<union>
        {i \<in> set js. q \<noteq> [] \<and> keywordContains rt ?el q i}"
    using L by blast
  have 8: "set (searchTrie (keywordTrieRoot s') q) =
        set (searchTrie (keywordTrieRoot s) q) \<union>
        {j \<in> set (i # js). q \<noteq> [] \<and> keywordContains rt ?el q j}"
    unfolding k2 k1 by auto
  have c1: "set (searchTrie (categoryTrieRoot s1) q) =
        set (searchTrie (categoryTrieRoot s) q) \<union>
        (if q \<noteq> [] \<and> categoryContains rt ?el q i then {i} else {})"
    using E by blast
  have c2: "set (searchTrie (categoryTrieRoot s') q) =
        set (searchTrie (categoryTrieRoot s1) q) \<union>
        {i \<in> set js. q \<noteq> [] \<and> categoryContains rt ?el q i}"
    using L by blast
  have 9: "set (searchTrie (categoryTrieRoot s') q) =
        set (searchTrie (categoryTrieRoot s) q) \<union>
        {j \<in> set (i # js). q \<noteq> [] \<and> categoryContains rt ?el q j}"
    unfolding c2 c1 by auto
  show ?thesis
    unfolding loopSteps_def Let_def
    using 1 2 3 4 5 6 7 8 9 by blast
qed

lemma buildLoop_Inr: "buildLoop rt js s = Inr s' \<Longrightarrow> loopSteps rt js q s s'"
proof (induction js arbitrary: s)
  case Nil
  then show ?case by (simp add: loopSteps_Nil)
next
  case (Cons i js)
  from Cons.prems obtain s1 where
    s1: "buildEntry rt i s = Inr s1" and rest: "buildLoop rt js s1 = Inr s'"
    by (auto split: sum.splits)
  show ?case
    by (rule loopSteps_Cons[OF buildEntry_Inr[OF s1] Cons.IH[OF rest]])
qed

lemma buildLoop_total:
  "list_all (\<lambda>i. validEntry (emojiList s) (emojis (emojiList s) ! i)) js \<Longrightarrow>
     \<exists>s'. buildLoop rt js s = Inr s'"
proof (induction js arbitrary: s)
  case Nil
  then show ?case by simp
next
  case (Cons i js)
  from Cons.prems obtain s1 where s1: "buildEntry rt i s = Inr s1"
    using buildEntry_total[of s i rt] by auto
  have "emojiList s1 = emojiList s"
    using buildEntry_Inr[OF s1, of "[]"] by (simp add: entryStep_def Let_def)
  with Cons.prems have "\<exists>s'. buildLoop rt js s1 = Inr s'"
    by (intro Cons.IH) simp
  with s1 show ?case by simp
qed

lemma list_all_upt_nth: "list_all (\<lambda>i. P (xs ! i)) [0..<length xs] \<longleftrightarrow> list_all P xs"
  by (auto simp: list_all_iff all_set_conv_all_nth)

lemma fold_upd_upt:
  "fold (\<lambda>i m. m(f i \<mapsto> i)) [0..<n] Map.empty k = Some i \<longleftrightarrow>
     i < n \<and> f i = k \<and> (\<forall>j. i < j \<and> j < n \<longrightarrow> f j \<noteq> k)"
proof (induction n arbitrary: i)
  case 0
  then show ?case by simp
next
  case (Suc n)
  show ?case
  proof (cases "f n = k")
    case True
    then show ?thesis
      by (auto simp: less_Suc_eq) 
  next
    case False
    then show ?thesis
      using Suc.IH[of i] by (auto simp: less_Suc_eq)
  qed
qed

lemma newEmojiSearcher_builtFrom:
  assumes "newEmojiSearcher rt el None = Inr s"
  shows "builtFrom rt el q s"
proof -
  let ?s0 = "\<lparr>nameTrieRoot = TrieNode [] [], keywordTrieRoot = TrieNode [] [],
             categoryTrieRoot = TrieNode [] [], nameMap = [], emojiList = el\<rparr>"
  from assms have "buildLoop rt [0..<length (emojis el)] ?s0 = Inr s"
    by (simp add: newEmojiSearcher_def buildTries_def)
  note L = buildLoop_Inr[OF this, of q, unfolded loopSteps_def Let_def, simplified]
  have v: "validCatalog el"
    using L by (simp add: validCatalog_def list_all_upt_nth)
  show ?thesis
    unfolding builtFrom_def
    using L v by (auto simp: searchTrie_empty)
qed

lemma newEmojiSearcher_nameMap:
  assumes "newEmojiSearcher rt el None = Inr s"
  shows "map_of (nameMap s) nm = Some i \<longleftrightarrow> lastWithName el i \<and> entry_name (emojis el ! i) = nm"
proof -
  let ?s0 = "\<lparr>nameTrieRoot = TrieNode [] [], keywordTrieRoot = TrieNode [] [],
             categoryTrieRoot = TrieNode [] [], nameMap = [], emojiList = el\<rparr>"
  from assms have "buildLoop rt [0..<length (emojis el)] ?s0 = Inr s"
    by (simp add: newEmojiSearcher_def buildTries_def)
  note L = buildLoop_Inr[OF this, of "[]", unfolded loopSteps_def Let_def, simplified]
  then have "map_of (nameMap s) =
      fold (\<lambda>i m. m(entry_name (emojis el ! i) \<mapsto> i)) [0..<length (emojis el)] Map.empty"
    by simp
  then show ?thesis
    by (auto simp: fold_upd_upt lastWithName_def list_all_iff)
qed

lemma newEmojiSearcher_total:
  assumes "validCatalog el"
  shows "\<exists>s. newEmojiSearcher rt el None = Inr s"
  unfolding newEmojiSearcher_def buildTries_def
  using assms by (simp add: buildLoop_total validCatalog_def list_all_upt_nth)

lemma newEmojiSearcher_cached:
  "newEmojiSearcher rt (emojiList s) (Some (toJSON s)) = Inr s"
  by (simp add: newEmojiSearcher_def toJSON_def)

lemma tiny_built: "newEmojiSearcher asciiMethods tinyList None = Inr tinyEngine"
  by code_simp

section \<open>The substring indices\<close>

text \<open>
  C1 (amended). After the index is built from a catalog, for every query \<open>q\<close> that is not
  empty, looking up the lowercased \<open>q\<close> in the name trie returns exactly the positions of
  the records whose lowercased name contains it as a contiguous substring; in the keyword
  trie, the records one of whose keywords contains it; in the category trie, the records
  whose category or subcategory name contains it. This holds for every pair of string
  methods that satisfies \<open>stringMethodsOK\<close>, so for \<open>toLowerCase\<close> as the runtime
  implements it.
\<close>

theorem substring_index_correct:
  assumes "newEmojiSearcher rt el None = Inr s" and "q \<noteq> []" and "stringMethodsOK rt"
  shows
    "set (searchTrie (nameTrieRoot s) (toLowerCase rt q)) =
       {i. i < length (emojis el) \<and>
           sublist (toLowerCase rt q) (toLowerCase rt (entry_name (emojis el ! i)))} \<and>
     set (searchTrie (keywordTrieRoot s) (toLowerCase rt q)) =
       {i. i < length (emojis el) \<and>
           (\<exists>k \<in> set (entry_keywords (emojis el ! i)).
              sublist (toLowerCase rt q) (toLowerCase rt (keywords_tbl el ! k)))} \<and>
     set (searchTrie (categoryTrieRoot s) (toLowerCase rt q)) =
       {i. i < length (emojis el) \<and>
           (sublist (toLowerCase rt q) (toLowerCase rt (category el ! entry_category (emojis el ! i))) \<or>
            sublist (toLowerCase rt q)
              (toLowerCase rt
                 (subCategory el ! entry_category (emojis el ! i) !
                    entry_subCategory (emojis el ! i))))}"
proof -
  from assms(2,3) have ne: "toLowerCase rt q \<noteq> []"
    by (simp add: stringMethodsOK_def)
  note B = newEmojiSearcher_builtFrom[OF assms(1), of "toLowerCase rt q", unfolded builtFrom_def]
  have n: "set (searchTrie (nameTrieRoot s) (toLowerCase rt q)) =
       {i. i < length (emojis el) \<and>
           sublist (toLowerCase rt q) (toLowerCase rt (entry_name (emojis el ! i)))}"
    using B ne by (simp add: nameContains_def)
  have k: "set (searchTrie (keywordTrieRoot s) (toLowerCase rt q)) =
       {i. i < length (emojis el) \<and>
           (\<exists>k \<in> set (entry_keywords (emojis el ! i)).
              sublist (toLowerCase rt q) (toLowerCase rt (keywords_tbl el ! k)))}"
    using B ne by (simp add: keywordContains_def list_ex_iff)
  have c: "set (searchTrie (categoryTrieRoot s) (toLowerCase rt q)) =
       {i. i < length (emojis el) \<and>
           (sublist (toLowerCase rt q) (toLowerCase rt (category el ! entry_category (emojis el ! i))) \<or>
            sublist (toLowerCase rt q)
              (toLowerCase rt
                 (subCategory el ! entry_category (emojis el ! i) !
                    entry_subCategory (emojis el ! i))))}"
    using B ne by (simp add: categoryContains_def Let_def)
  from n k c show ?thesis by blast
qed

theorem substring_index_correct_witness:
  "newEmojiSearcher asciiMethods tinyList None = Inr tinyEngine \<and> ''A'' \<noteq> [] \<and>
   searchTrie (nameTrieRoot tinyEngine) (toLowerCase asciiMethods ''A'') = [0] \<and>
   set (searchTrie (nameTrieRoot tinyEngine) (toLowerCase asciiMethods ''A'')) =
     {i. i < length (emojis tinyList) \<and>
         sublist (toLowerCase asciiMethods ''A'') (toLowerCase asciiMethods (entry_name (emojis tinyList ! i)))}"
proof -
  have "searchTrie (nameTrieRoot tinyEngine) (toLowerCase asciiMethods ''A'') = [0]"
    by code_simp
  then show ?thesis
    using substring_index_correct[OF tiny_built _ asciiMethods_ok, of "''A''"] tiny_built
      asciiMethods_ok
    by simp
qed

text \<open>
  C1 as stated fails at the empty query: every name contains the empty string, and the
  lookup returns the output of the root, to which nothing is ever pushed.
\<close>

theorem substring_index_empty_query_counterexample:
  "newEmojiSearcher asciiMethods tinyList None = Inr tinyEngine \<and>
   searchTrie (nameTrieRoot tinyEngine) (toLowerCase asciiMethods []) = [] \<and>
   0 < length (emojis tinyList) \<and>
   sublist (toLowerCase asciiMethods []) (toLowerCase asciiMethods (entry_name (emojis tinyList ! 0)))"
proof -
  have "searchTrie (nameTrieRoot tinyEngine) (toLowerCase asciiMethods []) = []"
    and "0 < length (emojis tinyList)"
    and "sublist (toLowerCase asciiMethods [])
           (toLowerCase asciiMethods (entry_name (emojis tinyList ! 0)))"
    by code_simp+
  with tiny_built show ?thesis by blast
qed

text \<open>
  C9. Every call of \<open>insertIntoTrie\<close> keeps each node's output free of repetitions, also
  when overlapping suffixes lead it through the same node again, and in the three tries
  of a freshly built index no node lists a record twice.
\<close>

theorem output_deduplicated:
  "(dedup root \<longrightarrow> dedup (insertIntoTrie root str i)) \<and>
   (newEmojiSearcher rt el None = Inr s \<longrightarrow>
      dedup (nameTrieRoot s) \<and> dedup (keywordTrieRoot s) \<and> dedup (categoryTrieRoot s))"
proof -
  have "dedup (nameTrieRoot s) \<and> dedup (keywordTrieRoot s) \<and> dedup (categoryTrieRoot s)"
    if "newEmojiSearcher rt el None = Inr s"
    using newEmojiSearcher_builtFrom[OF that, of "[]"] by (simp add: builtFrom_def)
  then show ?thesis
    by (simp add: dedup_insertIntoTrie)
qed

theorem output_deduplicated_witness:
  "dedup (TrieNode [] []) \<and>
   insertIntoTrie (TrieNode [] []) ''aa'' 0 =
     TrieNode [(CHR ''a'', TrieNode [(CHR ''a'', TrieNode [] [0])] [0])] [] \<and>
   dedup (insertIntoTrie (TrieNode [] []) ''aa'' 0) \<and>
   newEmojiSearcher asciiMethods tinyList None = Inr tinyEngine \<and>
   dedup (nameTrieRoot tinyEngine) \<and> dedup (keywordTrieRoot tinyEngine) \<and>
   dedup (categoryTrieRoot tinyEngine)"
proof -
  have "insertIntoTrie (TrieNode [] []) ''aa'' 0 =
     TrieNode [(CHR ''a'', TrieNode [(CHR ''a'', TrieNode [] [0])] [0])] []"
    by code_simp
  then show ?thesis
    using output_deduplicated[of "TrieNode [] []" "''aa''" 0 asciiMethods tinyList tinyEngine]
      tiny_built
    by simp
qed

section \<open>Votes\<close>

lemma keys_addVote: "fst ` set (addVote votes idx w) = insert idx (fst ` set votes)"
  by (induction votes idx w rule: addVote.induct) auto

lemma sorted_addVote:
  "sorted_wrt (<) (map fst votes) \<Longrightarrow> sorted_wrt (<) (map fst (addVote votes idx w))"
proof (induction votes idx w rule: addVote.induct)
  case (1 idx w)
  then show ?case by simp
next
  case (2 k v rest idx w)
  show ?case
  proof (cases "idx = k \<or> idx < k")
    case True
    with "2.prems" show ?thesis by auto
  next
    case False
    with "2.prems" "2.IH" have "sorted_wrt (<) (map fst (addVote rest idx w))" by simp
    moreover have "\<forall>x \<in> fst ` set (addVote rest idx w). k < x"
      using False "2.prems" by (auto simp: keys_addVote)
    ultimately show ?thesis using False by auto
  qed
qed

lemma map_of_addVote:
  "sorted_wrt (<) (map fst votes) \<Longrightarrow>
     map_of (addVote votes idx w) = (map_of votes)(idx \<mapsto> voteOf votes idx + w)"
proof (induction votes idx w rule: addVote.induct)
  case (1 idx w)
  then show ?case by (simp add: voteOf_def)
next
  case (2 k v rest idx w)
  show ?case
  proof (cases "idx < k")
    case True
    with "2.prems" have "idx \<notin> fst ` set rest" by auto
    then have "map_of rest idx = None" by (simp add: map_of_eq_None_iff)
    with True show ?thesis by (auto simp: voteOf_def fun_eq_iff)
  next
    case False
    with "2.prems" "2.IH" show ?thesis by (auto simp: voteOf_def fun_eq_iff)
  qed
qed

lemma positive_addVote:
  "0 < w \<Longrightarrow> list_all (\<lambda>(k, v). 0 < v) votes \<Longrightarrow> list_all (\<lambda>(k, v). 0 < v) (addVote votes idx w)"
  by (induction votes idx w rule: addVote.induct) auto

lemma votesOK_Nil: "votesOK []"
  by (simp add: votesOK_def)

lemma votesOK_addVote: "0 < w \<Longrightarrow> votesOK votes \<Longrightarrow> votesOK (addVote votes idx w)"
  by (simp add: votesOK_def sorted_addVote positive_addVote)

lemma voteOf_addVote:
  "votesOK votes \<Longrightarrow> voteOf (addVote votes idx w) i = voteOf votes i + (if i = idx then w else 0)"
  by (simp add: voteOf_def map_of_addVote votesOK_def)

lemma votesOK_fold:
  "0 < w \<Longrightarrow> votesOK votes \<Longrightarrow> votesOK (fold (\<lambda>idx v. addVote v idx w) xs votes)"
  by (induction xs arbitrary: votes) (simp_all add: votesOK_addVote)

lemma votesOK_fold_if:
  "0 < w \<Longrightarrow> votesOK votes \<Longrightarrow>
     votesOK (fold (\<lambda>i v. if P i then addVote v i w else v) xs votes)"
  by (induction xs arbitrary: votes) (simp_all add: votesOK_addVote)

lemma voteOf_fold:
  "0 < w \<Longrightarrow> votesOK votes \<Longrightarrow>
     voteOf (fold (\<lambda>idx v. addVote v idx w) xs votes) i = voteOf votes i + w * count_list xs i"
  by (induction xs arbitrary: votes) (simp_all add: voteOf_addVote votesOK_addVote)

lemma voteOf_fold_if:
  "0 < w \<Longrightarrow> votesOK votes \<Longrightarrow>
     voteOf (fold (\<lambda>j v. if P j then addVote v j w else v) xs votes) i =
       voteOf votes i + w * count_list (filter P xs) i"
  by (induction xs arbitrary: votes) (simp_all add: voteOf_addVote votesOK_addVote)

lemma count_list_distinct: "distinct xs \<Longrightarrow> count_list xs i = (if i \<in> set xs then 1 else 0)"
  by (induction xs) auto

lemma votesOK_distinct: "votesOK votes \<Longrightarrow> distinct (map fst votes)"
  unfolding votesOK_def by (simp add: strict_sorted_iff)

lemma votesOK_mem:
  assumes "votesOK votes"
  shows "(i, w) \<in> set votes \<longleftrightarrow> voteOf votes i = w \<and> 0 < w"
proof -
  have d: "distinct (map fst votes)" using assms by (rule votesOK_distinct)
  show ?thesis
  proof
    assume m: "(i, w) \<in> set votes"
    with d have "map_of votes i = Some w" by simp
    moreover from m assms have "0 < w" by (auto simp: votesOK_def list_all_iff)
    ultimately show "voteOf votes i = w \<and> 0 < w" by (simp add: voteOf_def)
  next
    assume "voteOf votes i = w \<and> 0 < w"
    then have "map_of votes i = Some w"
      by (auto simp: voteOf_def split: option.splits)
    then show "(i, w) \<in> set votes" by (rule map_of_SomeD)
  qed
qed

section \<open>The weight of a record\<close>

lemma count_list_filter_upt:
  "count_list (filter P [0..<n]) i = (if i < n \<and> P i then 1 else 0)"
  by (simp add: count_list_distinct)

lemma votes1_OK:
  "votesOK (case nameMapGet m input of OwnNumber exactIdx \<Rightarrow> addVote [] exactIdx 5 | _ \<Rightarrow> [])"
  by (simp add: votesOK_def split: property.splits)

lemma votes1_voteOf:
  "voteOf (case nameMapGet m input of OwnNumber exactIdx \<Rightarrow> addVote [] exactIdx 5 | _ \<Rightarrow> []) i =
     (if map_of m input = Some i then 5 else 0)"
  by (auto simp: voteOf_def nameMapGet_def split: property.splits option.splits)

lemma votes2_OK:
  "votesOK v \<Longrightarrow>
   votesOK (case indexOf kws input of
              None \<Rightarrow> v
            | Some k \<Rightarrow> fold (\<lambda>i v. if P k i then addVote v i 4 else v) js v)"
  by (simp add: votesOK_fold_if split: option.splits)

lemma votes2_voteOf:
  "votesOK v \<Longrightarrow>
   voteOf (case indexOf kws input of
             None \<Rightarrow> v
           | Some k \<Rightarrow> fold (\<lambda>i v. if P k i then addVote v i 4 else v) [0..<n] v) i =
     voteOf v i +
     (case indexOf kws input of None \<Rightarrow> 0 | Some k \<Rightarrow> if i < n \<and> P k i then 4 else 0)"
  by (simp add: voteOf_fold_if count_list_filter_upt split: option.splits)

lemma resultVotes_OK: "votesOK (resultVotes rt s input)"
  unfolding resultVotes_def Let_def
  by (intro votesOK_fold votes2_OK votes1_OK) simp_all

lemma resultVotes_voteOf:
  "voteOf (resultVotes rt s input) i =
     (if map_of (nameMap s) input = Some i then 5 else 0) +
     (case indexOf (keywords_tbl (emojiList s)) input of
        None \<Rightarrow> 0
      | Some k \<Rightarrow>
          if i < length (emojis (emojiList s)) \<and>
             k \<in> set (entry_keywords (emojis (emojiList s) ! i)) then 4 else 0) +
     3 * count_list (searchTrie (nameTrieRoot s) (toLowerCase rt (trim rt input))) i +
     2 * count_list (searchTrie (keywordTrieRoot s) (toLowerCase rt (trim rt input))) i +
     count_list (searchTrie (categoryTrieRoot s) (toLowerCase rt (trim rt input))) i"
proof -
  let ?el = "emojiList s"
  let ?lq = "toLowerCase rt (trim rt input)"
  let ?v1 = "case nameMapGet (nameMap s) input of
               OwnNumber exactIdx \<Rightarrow> addVote [] exactIdx 5 | _ \<Rightarrow> []"
  let ?v2 = "case indexOf (keywords_tbl ?el) input of
               None \<Rightarrow> ?v1
             | Some k \<Rightarrow>
                 fold (\<lambda>i v. if k \<in> set (entry_keywords (emojis ?el ! i))
                              then addVote v i 4 else v)
                   [0..<length (emojis ?el)] ?v1"
  let ?v3 = "fold (\<lambda>idx v. addVote v idx 3) (searchTrie (nameTrieRoot s) ?lq) ?v2"
  let ?v4 = "fold (\<lambda>idx v. addVote v idx 2) (searchTrie (keywordTrieRoot s) ?lq) ?v3"
  let ?v5 = "fold (\<lambda>idx v. addVote v idx 1) (searchTrie (categoryTrieRoot s) ?lq) ?v4"
  have ok1: "votesOK ?v1" by (rule votes1_OK)
  have ok2: "votesOK ?v2"
    by (rule votes2_OK[OF ok1, where P = "\<lambda>k i. k \<in> set (entry_keywords (emojis ?el ! i))"])
  have ok3: "votesOK ?v3" by (rule votesOK_fold[OF _ ok2]) simp
  have ok4: "votesOK ?v4" by (rule votesOK_fold[OF _ ok3]) simp
  have w1: "voteOf ?v1 i = (if map_of (nameMap s) input = Some i then 5 else 0)"
    by (rule votes1_voteOf)
  have w2: "voteOf ?v2 i = voteOf ?v1 i +
     (case indexOf (keywords_tbl ?el) input of
        None \<Rightarrow> 0
      | Some k \<Rightarrow>
          if i < length (emojis ?el) \<and> k \<in> set (entry_keywords (emojis ?el ! i))
          then 4 else 0)"
    by (rule votes2_voteOf[OF ok1,
          where P = "\<lambda>k i. k \<in> set (entry_keywords (emojis ?el ! i))"])
  have w3: "voteOf ?v3 i = voteOf ?v2 i + 3 * count_list (searchTrie (nameTrieRoot s) ?lq) i"
    by (rule voteOf_fold[OF _ ok2]) simp
  have w4: "voteOf ?v4 i = voteOf ?v3 i + 2 * count_list (searchTrie (keywordTrieRoot s) ?lq) i"
    by (rule voteOf_fold[OF _ ok3]) simp
  have w5: "voteOf ?v5 i = voteOf ?v4 i + 1 * count_list (searchTrie (categoryTrieRoot s) ?lq) i"
    by (rule voteOf_fold[OF _ ok4]) simp
  have "resultVotes rt s input = ?v5"
    by (simp add: resultVotes_def Let_def)
  then show ?thesis
    by (simp only: w5 w4 w3 w2 w1 mult_1)
qed

text \<open>In a freshly built engine the votes of a record are the sum of its signals.\<close>

lemma resultVotes_built:
  assumes built: "newEmojiSearcher rt el None = Inr s"
    and ne: "toLowerCase rt (trim rt input) \<noteq> []"
  shows "voteOf (resultVotes rt s input) i =
           (if i < length (emojis el) then totalWeight rt el input i else 0)"
proof -
  let ?lq = "toLowerCase rt (trim rt input)"
  note B = newEmojiSearcher_builtFrom[OF built, of ?lq, unfolded builtFrom_def]
  from B have el: "emojiList s = el" by blast
  have nm: "map_of (nameMap s) input = Some i \<longleftrightarrow>
      lastWithName el i \<and> entry_name (emojis el ! i) = input"
    by (rule newEmojiSearcher_nameMap[OF built])
  have lw: "lastWithName el i \<Longrightarrow> i < length (emojis el)"
    by (simp add: lastWithName_def)
  have c1: "count_list (searchTrie (nameTrieRoot s) ?lq) i =
      (if i < length (emojis el) \<and> nameContains rt el ?lq i then 1 else 0)"
    using B ne dedup_searchTrie[of "nameTrieRoot s" ?lq] by (simp add: count_list_distinct)
  have c2: "count_list (searchTrie (keywordTrieRoot s) ?lq) i =
      (if i < length (emojis el) \<and> keywordContains rt el ?lq i then 1 else 0)"
    using B ne dedup_searchTrie[of "keywordTrieRoot s" ?lq] by (simp add: count_list_distinct)
  have c3: "count_list (searchTrie (categoryTrieRoot s) ?lq) i =
      (if i < length (emojis el) \<and> categoryContains rt el ?lq i then 1 else 0)"
    using B ne dedup_searchTrie[of "categoryTrieRoot s" ?lq] by (simp add: count_list_distinct)
  show ?thesis
    unfolding resultVotes_voteOf el c1 c2 c3 nm totalWeight_def Let_def exactKeyword_def
    using lw by (auto split: option.splits)
qed

lemma searchEntries_mem:
  "(i, w) \<in> set (searchEntries rt s input) \<longleftrightarrow> voteOf (resultVotes rt s input) i = w \<and> 3 < w"
  using votesOK_mem[OF resultVotes_OK, of i w rt s input]
  by (auto simp: searchEntries_def)

lemma searchEntries_sorted: "sorted_wrt (<) (map fst (searchEntries rt s input))"
proof -
  have "sorted_wrt (<) (map fst (resultVotes rt s input))"
    using resultVotes_OK[of rt s input] by (simp add: votesOK_def)
  then show ?thesis
    unfolding searchEntries_def by (simp add: sorted_wrt_map sorted_wrt_filter)
qed

lemma searchEntries_distinct: "distinct (map fst (searchEntries rt s input))"
  using searchEntries_sorted[of rt s input] by (simp add: strict_sorted_iff)

section \<open>Materialising and searching\<close>

lemma mapE_Inr_iff: "mapE f xs = Inr ys \<longleftrightarrow> list_all2 (\<lambda>x y. f x = Inr y) xs ys"
proof (induction xs arbitrary: ys)
  case Nil
  then show ?case by auto
next
  case (Cons x xs)
  show ?case
  proof (cases ys)
    case Nil
    then show ?thesis by (auto split: sum.splits)
  next
    case ys: (Cons y ys')
    show ?thesis
      unfolding ys using Cons.IH[of ys'] by (auto split: sum.splits)
  qed
qed

lemma mapE_map: "(\<And>x. x \<in> set xs \<Longrightarrow> f x = Inr (g x)) \<Longrightarrow> mapE f xs = Inr (map g xs)"
  by (induction xs) simp_all

lemma intoHumanReadable_valid:
  assumes "validCatalog (emojiList s)" and "i < length (emojis (emojiList s))"
  shows "intoHumanReadable s i w = Inr (humanReadable (emojiList s) i w)"
proof -
  let ?el = "emojiList s"
  from assms have v: "validEntry ?el (emojis ?el ! i)"
    by (simp add: validCatalog_def list_all_iff)
  then have "map (nth_opt (keywords_tbl ?el)) (entry_keywords (emojis ?el ! i)) =
      map (\<lambda>k. Some (keywords_tbl ?el ! k)) (entry_keywords (emojis ?el ! i))"
    by (simp add: validEntry_def list_all_iff nth_opt_def)
  with v assms(2) show ?thesis
    by (simp add: intoHumanReadable_def humanReadable_def Let_def validEntry_def nth_opt_def)
qed

lemma getAll_valid:
  assumes "validCatalog (emojiList s)"
  shows "getAll s =
           Inr (map (\<lambda>i. humanReadable (emojiList s) i None)
                  [0..<length (emojis (emojiList s))])"
  unfolding getAll_def
  by (rule mapE_map) (simp add: intoHumanReadable_valid[OF assms])

lemma keyed_sorted_unique:
  fixes xs ys :: "(nat \<times> nat) list"
  shows "sorted_wrt (<) (map fst xs) \<Longrightarrow> sorted_wrt (<) (map fst ys) \<Longrightarrow> set xs = set ys \<Longrightarrow>
     xs = ys"
proof (induction xs arbitrary: ys)
  case Nil
  then show ?case by simp
next
  case (Cons x xs)
  from Cons.prems(3) obtain y ys' where ys: "ys = y # ys'"
    by (cases ys) auto
  have xy: "x = y"
  proof (rule ccontr)
    assume neq: "x \<noteq> y"
    with Cons.prems(3) ys have "x \<in> set ys'" and "y \<in> set xs" by auto
    with Cons.prems(1,2) ys have "fst y < fst x" and "fst x < fst y" by auto
    then show False by simp
  qed
  have "x \<notin> set xs" using Cons.prems(1) by auto
  moreover have "y \<notin> set ys'" using Cons.prems(2) ys by auto
  ultimately have "set xs = set ys'"
    using Cons.prems(3) ys xy by auto
  with Cons.IH[of ys'] Cons.prems(1,2) ys xy show ?case by simp
qed

lemma rankedEntries_sorted: "sorted_wrt (<) (map fst (rankedEntries rt el input))"
proof -
  have "sorted_wrt (<) (map fst (map (\<lambda>i. (i, totalWeight rt el input i)) [0..<length (emojis el)]))"
    by (simp add: comp_def strict_sorted_iff)
  then show ?thesis
    unfolding rankedEntries_def by (simp add: sorted_wrt_map sorted_wrt_filter)
qed

lemma searchEntries_built:
  assumes "newEmojiSearcher rt el None = Inr s" and "toLowerCase rt (trim rt input) \<noteq> []"
  shows "searchEntries rt s input = rankedEntries rt el input"
proof (rule keyed_sorted_unique[OF searchEntries_sorted rankedEntries_sorted])
  show "set (searchEntries rt s input) = set (rankedEntries rt el input)"
  proof (rule set_eqI)
    fix p :: "nat \<times> nat"
    obtain i w where p: "p = (i, w)" by (cases p)
    show "p \<in> set (searchEntries rt s input) \<longleftrightarrow> p \<in> set (rankedEntries rt el input)"
      unfolding p searchEntries_mem resultVotes_built[OF assms]
      by (auto simp: rankedEntries_def)
  qed
qed

lemma search_built:
  assumes built: "newEmojiSearcher rt el None = Inr s"
    and ne: "toLowerCase rt (trim rt input) \<noteq> []"
    and own: "nameMapGet (nameMap s) input \<noteq> Inherited"
  shows "search rt s input =
           Inr (map (\<lambda>(i, w). humanReadable el i (Some w)) (rankedEntries rt el input))"
proof -
  note B = newEmojiSearcher_builtFrom[OF built, of "[]", unfolded builtFrom_def]
  from B have el: "emojiList s = el" and v: "validCatalog el" by blast+
  have "mapE (\<lambda>(idx, w). intoHumanReadable s idx (Some w)) (rankedEntries rt el input) =
      Inr (map (\<lambda>(i, w). humanReadable el i (Some w)) (rankedEntries rt el input))"
  proof (rule mapE_map)
    fix x assume "x \<in> set (rankedEntries rt el input)"
    then obtain i w where x: "x = (i, w)" and i: "i < length (emojis el)"
      by (auto simp: rankedEntries_def)
    show "(case x of (idx, w) \<Rightarrow> intoHumanReadable s idx (Some w)) =
        Inr (case x of (i, w) \<Rightarrow> humanReadable el i (Some w))"
      using intoHumanReadable_valid[of s i "Some w"] v i by (simp add: x el)
  qed
  with ne own show ?thesis
    by (simp add: search_def searchEntries_built[OF built ne])
qed

lemma party_built: "newEmojiSearcher asciiMethods partyList None = Inr partyEngine"
proof -
  have "validCatalog partyList" by code_simp
  then obtain s where "newEmojiSearcher asciiMethods partyList None = Inr s"
    using newEmojiSearcher_total by blast
  then show ?thesis by (simp add: partyEngine_def)
qed

lemma dup_built: "newEmojiSearcher asciiMethods dupList None = Inr dupEngine"
  by code_simp

lemma dupKeyword_built: "newEmojiSearcher asciiMethods dupKeywordList None = Inr dupKeywordEngine"
  by code_simp

section \<open>The ranking\<close>

lemma intoHumanReadable_weight: "intoHumanReadable s i w = Inr r \<Longrightarrow> weight r = w"
  by (auto simp: intoHumanReadable_def Let_def split: option.splits)

lemma nameMapGet_not_inherited:
  "input \<notin> set objectPrototypeKeys \<or> map_of m input \<noteq> None \<Longrightarrow> nameMapGet m input \<noteq> Inherited"
  by (auto simp: nameMapGet_def split: option.splits)

lemma search_Inr_entries:
  assumes "toLowerCase rt (trim rt input) \<noteq> []" and "search rt s input = Inr rs"
  shows "list_all2 (\<lambda>(i, w) r. intoHumanReadable s i (Some w) = Inr r) (searchEntries rt s input) rs"
proof -
  from assms have "mapE (\<lambda>(idx, w). intoHumanReadable s idx (Some w)) (searchEntries rt s input) = Inr rs"
    by (simp add: search_def split: if_splits)
  then show ?thesis
    by (simp add: mapE_Inr_iff case_prod_unfold)
qed

text \<open>
  C2. For every query that is not empty after trimming, every record \<open>search\<close> returns
  carries its accumulated weight, and that weight exceeds 3; a record whose accumulated
  weight is 3 or less is not among the entries \<open>search\<close> materialises; in a freshly built
  engine a record whose only signal is the substring match on its name has weight 3 and
  is left out. This holds for every pair of string methods that satisfies
  \<open>stringMethodsOK\<close>, so for \<open>trim\<close> and \<open>toLowerCase\<close> as the runtime implements them.
\<close>

theorem filter_threshold:
  assumes "trim rt input \<noteq> []" and "stringMethodsOK rt"
  shows
    "(search rt s input = Inr rs \<longrightarrow>
        list_all2
          (\<lambda>(i, w) r. intoHumanReadable s i (Some w) = Inr r \<and> weight r = Some w \<and>
                       voteOf (resultVotes rt s input) i = w \<and> 3 < w)
          (searchEntries rt s input) rs) \<and>
     (voteOf (resultVotes rt s input) i \<le> 3 \<longrightarrow> i \<notin> fst ` set (searchEntries rt s input)) \<and>
     (newEmojiSearcher rt el None = Inr s \<and> i < length (emojis el) \<and>
      nameContains rt el (toLowerCase rt (trim rt input)) i \<and>
      \<not> keywordContains rt el (toLowerCase rt (trim rt input)) i \<and>
      \<not> categoryContains rt el (toLowerCase rt (trim rt input)) i \<and>
      \<not> exactKeyword el input i \<and>
      \<not> (lastWithName el i \<and> entry_name (emojis el ! i) = input) \<longrightarrow>
        voteOf (resultVotes rt s input) i = 3 \<and> i \<notin> fst ` set (searchEntries rt s input))"
proof -
  from assms have ne: "toLowerCase rt (trim rt input) \<noteq> []"
    by (simp add: blank_iff)
  have below: "i \<notin> fst ` set (searchEntries rt s input)" if "voteOf (resultVotes rt s input) i \<le> 3"
    using that by (auto simp: searchEntries_mem)
  have out: "list_all2
          (\<lambda>(i, w) r. intoHumanReadable s i (Some w) = Inr r \<and> weight r = Some w \<and>
                       voteOf (resultVotes rt s input) i = w \<and> 3 < w)
          (searchEntries rt s input) rs"
    if "search rt s input = Inr rs"
  proof -
    have "list_all2 (\<lambda>(i, w) r. intoHumanReadable s i (Some w) = Inr r) (searchEntries rt s input) rs"
      by (rule search_Inr_entries[OF ne that])
    then show ?thesis
      by (rule list.rel_mono_strong) (auto simp: searchEntries_mem intoHumanReadable_weight)
  qed
  have only: "voteOf (resultVotes rt s input) i = 3"
    if "newEmojiSearcher rt el None = Inr s" "i < length (emojis el)"
      "nameContains rt el (toLowerCase rt (trim rt input)) i"
      "\<not> keywordContains rt el (toLowerCase rt (trim rt input)) i"
      "\<not> categoryContains rt el (toLowerCase rt (trim rt input)) i"
      "\<not> exactKeyword el input i"
      "\<not> (lastWithName el i \<and> entry_name (emojis el ! i) = input)"
    using that by (simp add: resultVotes_built[OF that(1) ne] totalWeight_def Let_def)
  show ?thesis
    using below out only by auto
qed

lemma party_search:
  assumes "trim asciiMethods input \<noteq> []" and "input \<notin> set objectPrototypeKeys"
  shows "search asciiMethods partyEngine input =
           Inr (map (\<lambda>(i, w). humanReadable partyList i (Some w)) (rankedEntries asciiMethods partyList input))"
  using assms
  by (intro search_built[OF party_built] nameMapGet_not_inherited)
    (simp_all add: blank_iff[OF asciiMethods_ok])

theorem filter_threshold_witness:
  "trim asciiMethods ''part'' \<noteq> [] \<and> newEmojiSearcher asciiMethods partyList None = Inr partyEngine \<and>
   nameContains asciiMethods partyList (toLowerCase asciiMethods (trim asciiMethods ''part'')) 0 \<and>
   voteOf (resultVotes asciiMethods partyEngine ''part'') 0 = 3 \<and>
   0 \<notin> fst ` set (searchEntries asciiMethods partyEngine ''part'') \<and>
   search asciiMethods partyEngine ''part'' = Inr [] \<and>
   search asciiMethods partyEngine ''party popper'' = Inr [humanReadable partyList 0 (Some 8)] \<and>
   list_all2
     (\<lambda>(i, w) r. intoHumanReadable partyEngine i (Some w) = Inr r \<and> weight r = Some w \<and>
                  voteOf (resultVotes asciiMethods partyEngine ''party popper'') i = w \<and> 3 < w)
     (searchEntries asciiMethods partyEngine ''party popper'') [humanReadable partyList 0 (Some 8)]"
proof -
  have t1: "trim asciiMethods ''part'' \<noteq> []" and t2: "trim asciiMethods ''party popper'' \<noteq> []"
    by code_simp+
  have k1: "''part'' \<notin> set objectPrototypeKeys" and k2: "''party popper'' \<notin> set objectPrototypeKeys"
    by code_simp+
  have sig: "0 < length (emojis partyList) \<and>
      nameContains asciiMethods partyList (toLowerCase asciiMethods (trim asciiMethods ''part'')) 0 \<and>
      \<not> keywordContains asciiMethods partyList (toLowerCase asciiMethods (trim asciiMethods ''part'')) 0 \<and>
      \<not> categoryContains asciiMethods partyList (toLowerCase asciiMethods (trim asciiMethods ''part'')) 0 \<and>
      \<not> exactKeyword partyList ''part'' 0 \<and>
      \<not> (lastWithName partyList 0 \<and> entry_name (emojis partyList ! 0) = ''part'')"
    by code_simp
  have r1: "rankedEntries asciiMethods partyList ''part'' = []"
    and r2: "rankedEntries asciiMethods partyList ''party popper'' = [(0, 8)]"
    by code_simp+
  have s1: "search asciiMethods partyEngine ''part'' = Inr []"
    by (simp add: party_search[OF t1 k1] r1)
  have s2: "search asciiMethods partyEngine ''party popper'' = Inr [humanReadable partyList 0 (Some 8)]"
    by (simp add: party_search[OF t2 k2] r2)
  show ?thesis
    using filter_threshold[OF t1 asciiMethods_ok, of partyEngine "[]" 0 partyList]
      filter_threshold[OF t2 asciiMethods_ok, of partyEngine
        "[humanReadable partyList 0 (Some 8)]" 0 partyList]
      party_built sig s1 s2 t1
    by simp
qed

text \<open>
  C3 (amended). For every query that is not blank and equals, as it was passed to
  \<open>search\<close>, the as-authored name of a record, the last record of the catalog that bears
  that name receives the exact-name signal; its total weight is at least 5 and it is in
  the result of \<open>search\<close>. This holds for every pair of string methods that satisfies
  \<open>stringMethodsOK\<close>, so for \<open>trim\<close> and \<open>toLowerCase\<close> as the runtime implements them.
\<close>

theorem exact_name_match:
  assumes "newEmojiSearcher rt el None = Inr s"
    and "lastWithName el i"
    and "input = entry_name (emojis el ! i)"
    and "trim rt input \<noteq> []"
    and "stringMethodsOK rt"
  shows "nameMapGet (nameMap s) input = OwnNumber i \<and>
         (\<exists>w rs. voteOf (resultVotes rt s input) i = w \<and> 5 \<le> w \<and>
                  search rt s input = Inr rs \<and> humanReadable el i (Some w) \<in> set rs)"
proof -
  from assms(4,5) have ne: "toLowerCase rt (trim rt input) \<noteq> []" by (simp add: blank_iff)
  from assms(2) have i: "i < length (emojis el)" by (simp add: lastWithName_def)
  have m: "map_of (nameMap s) input = Some i"
    using newEmojiSearcher_nameMap[OF assms(1), of input i] assms(2,3) by simp
  then have own: "nameMapGet (nameMap s) input = OwnNumber i"
    by (simp add: nameMapGet_def)
  let ?w = "totalWeight rt el input i"
  have w: "voteOf (resultVotes rt s input) i = ?w"
    using i by (simp add: resultVotes_built[OF assms(1) ne])
  have w5: "5 \<le> ?w"
    using assms(2,3) by (simp add: totalWeight_def Let_def)
  then have "(i, ?w) \<in> set (rankedEntries rt el input)"
    using i by (auto simp: rankedEntries_def)
  then have "humanReadable el i (Some ?w) \<in>
      set (map (\<lambda>(i, w). humanReadable el i (Some w)) (rankedEntries rt el input))"
    by force
  moreover have "search rt s input =
      Inr (map (\<lambda>(i, w). humanReadable el i (Some w)) (rankedEntries rt el input))"
    by (rule search_built[OF assms(1) ne]) (simp add: own)
  ultimately show ?thesis
    using own w w5 by blast
qed

theorem exact_name_match_witness:
  "newEmojiSearcher asciiMethods partyList None = Inr partyEngine \<and> lastWithName partyList 0 \<and>
   ''party popper'' = entry_name (emojis partyList ! 0) \<and> trim asciiMethods ''party popper'' \<noteq> [] \<and>
   nameMapGet (nameMap partyEngine) ''party popper'' = OwnNumber 0 \<and>
   voteOf (resultVotes asciiMethods partyEngine ''party popper'') 0 = 8 \<and>
   search asciiMethods partyEngine ''party popper'' = Inr [humanReadable partyList 0 (Some 8)]"
proof -
  have h: "lastWithName partyList 0" "''party popper'' = entry_name (emojis partyList ! 0)"
    "trim asciiMethods ''party popper'' \<noteq> []"
    by code_simp+
  have k: "''party popper'' \<notin> set objectPrototypeKeys"
    by code_simp
  have r: "rankedEntries asciiMethods partyList ''party popper'' = [(0, 8)]"
    and w: "totalWeight asciiMethods partyList ''party popper'' 0 = 8"
    and n: "0 < length (emojis partyList)"
    by code_simp+
  have v: "voteOf (resultVotes asciiMethods partyEngine ''party popper'') 0 = 8"
    using resultVotes_built[OF party_built, of "''party popper''" 0] h(3) w n
    by (simp add: blank_iff[OF asciiMethods_ok])
  have sr: "search asciiMethods partyEngine ''party popper'' = Inr [humanReadable partyList 0 (Some 8)]"
    by (simp add: party_search[OF h(3) k] r)
  from exact_name_match[OF party_built h asciiMethods_ok]
  have "nameMapGet (nameMap partyEngine) ''party popper'' = OwnNumber 0" by blast
  with party_built h v sr show ?thesis by blast
qed

text \<open>
  C3 as stated fails twice. In a catalog where two records bear the name \<open>a\<close>, the query
  \<open>a\<close> gives the exact-name signal to the second only: the first is left with weight 3
  and is not returned. And the query \<open>a\<close> between two spaces trims to the name of the one
  record of \<open>tinyList\<close>, yet the exact lookup compares the untrimmed string: the record
  has weight 3 and the result is empty.
\<close>

theorem exact_name_match_counterexample:
  "newEmojiSearcher asciiMethods dupList None = Inr dupEngine \<and>
   trim asciiMethods ''a'' = entry_name (emojis dupList ! 0) \<and>
   voteOf (resultVotes asciiMethods dupEngine ''a'') 0 = 3 \<and>
   search asciiMethods dupEngine ''a'' = Inr [humanReadable dupList 1 (Some 8)] \<and>
   newEmojiSearcher asciiMethods tinyList None = Inr tinyEngine \<and>
   trim asciiMethods '' a '' = entry_name (emojis tinyList ! 0) \<and>
   voteOf (resultVotes asciiMethods tinyEngine '' a '') 0 = 3 \<and>
   search asciiMethods tinyEngine '' a '' = Inr []"
proof -
  have "trim asciiMethods ''a'' = entry_name (emojis dupList ! 0)"
    and "voteOf (resultVotes asciiMethods dupEngine ''a'') 0 = 3"
    and "search asciiMethods dupEngine ''a'' = Inr [humanReadable dupList 1 (Some 8)]"
    and "trim asciiMethods '' a '' = entry_name (emojis tinyList ! 0)"
    and "voteOf (resultVotes asciiMethods tinyEngine '' a '') 0 = 3"
    and "search asciiMethods tinyEngine '' a '' = Inr []"
    by code_simp+
  then show ?thesis
    using dup_built tiny_built by simp
qed

text \<open>
  When the query is the name of a property that every object inherits and no record bears
  it as its name, the exact-name read yields a function and \<open>search\<close> throws.
\<close>

lemma search_inherited_key_throws:
  assumes "toLowerCase rt (trim rt input) \<noteq> []" and "input \<in> set objectPrototypeKeys"
    and "map_of (nameMap s) input = None"
  shows "search rt s input = Inl TypeError"
  using assms by (simp add: search_def nameMapGet_def)

lemma search_constructor_throws: "search asciiMethods tinyEngine ''constructor'' = Inl TypeError"
  by code_simp

text \<open>
  C4 (amended). For every query that is not blank, equals a keyword string as it was
  passed to \<open>search\<close>, and does not make the exact-name lookup return a property
  inherited from \<open>Object.prototype\<close>, every record that references the first position of
  that string in the keyword table is in the result of \<open>search\<close>, with the exact-keyword
  signal in a total weight of at least 4. This holds for every pair of string methods
  that satisfies \<open>stringMethodsOK\<close>, so for \<open>trim\<close> and \<open>toLowerCase\<close> as the runtime
  implements them.
\<close>

theorem exact_keyword_match:
  assumes "newEmojiSearcher rt el None = Inr s"
    and "indexOf (keywords_tbl el) input = Some k"
    and "i < length (emojis el)"
    and "k \<in> set (entry_keywords (emojis el ! i))"
    and "trim rt input \<noteq> []"
    and "nameMapGet (nameMap s) input \<noteq> Inherited"
    and "stringMethodsOK rt"
  shows "exactKeyword el input i \<and>
         (\<exists>w rs. voteOf (resultVotes rt s input) i = w \<and> 4 \<le> w \<and>
                  search rt s input = Inr rs \<and> humanReadable el i (Some w) \<in> set rs)"
proof -
  from assms(5,7) have ne: "toLowerCase rt (trim rt input) \<noteq> []" by (simp add: blank_iff)
  have ek: "exactKeyword el input i"
    using assms(2,4) by (simp add: exactKeyword_def)
  let ?w = "totalWeight rt el input i"
  have w: "voteOf (resultVotes rt s input) i = ?w"
    using assms(3) by (simp add: resultVotes_built[OF assms(1) ne])
  have w4: "4 \<le> ?w"
    using ek by (simp add: totalWeight_def Let_def)
  then have "(i, ?w) \<in> set (rankedEntries rt el input)"
    using assms(3) by (auto simp: rankedEntries_def)
  then have "humanReadable el i (Some ?w) \<in>
      set (map (\<lambda>(i, w). humanReadable el i (Some w)) (rankedEntries rt el input))"
    by force
  moreover have "search rt s input =
      Inr (map (\<lambda>(i, w). humanReadable el i (Some w)) (rankedEntries rt el input))"
    by (rule search_built[OF assms(1) ne assms(6)])
  ultimately show ?thesis
    using ek w w4 by blast
qed

theorem exact_keyword_match_witness:
  "newEmojiSearcher asciiMethods partyList None = Inr partyEngine \<and>
   indexOf (keywords_tbl partyList) ''celebration'' = Some 0 \<and>
   0 < length (emojis partyList) \<and> 0 \<in> set (entry_keywords (emojis partyList ! 0)) \<and>
   trim asciiMethods ''celebration'' \<noteq> [] \<and>
   nameMapGet (nameMap partyEngine) ''celebration'' \<noteq> Inherited \<and>
   voteOf (resultVotes asciiMethods partyEngine ''celebration'') 0 = 6 \<and>
   search asciiMethods partyEngine ''celebration'' = Inr [humanReadable partyList 0 (Some 6)]"
proof -
  have h: "indexOf (keywords_tbl partyList) ''celebration'' = Some 0"
    "0 < length (emojis partyList)" "0 \<in> set (entry_keywords (emojis partyList ! 0))"
    "trim asciiMethods ''celebration'' \<noteq> []"
    by code_simp+
  have k: "''celebration'' \<notin> set objectPrototypeKeys"
    by code_simp
  then have own: "nameMapGet (nameMap partyEngine) ''celebration'' \<noteq> Inherited"
    by (simp add: nameMapGet_not_inherited)
  have r: "rankedEntries asciiMethods partyList ''celebration'' = [(0, 6)]"
    and w: "totalWeight asciiMethods partyList ''celebration'' 0 = 6"
    by code_simp+
  have v: "voteOf (resultVotes asciiMethods partyEngine ''celebration'') 0 = 6"
    using resultVotes_built[OF party_built, of "''celebration''" 0] h(2,4) w
    by (simp add: blank_iff[OF asciiMethods_ok])
  have sr: "search asciiMethods partyEngine ''celebration'' = Inr [humanReadable partyList 0 (Some 6)]"
    by (simp add: party_search[OF h(4) k] r)
  from exact_keyword_match[OF party_built h own asciiMethods_ok]
  have "exactKeyword partyList ''celebration'' 0" by blast
  with party_built h own v sr show ?thesis by blast
qed

text \<open>
  C4 as stated fails twice. Where the keyword table holds the string \<open>k\<close> at positions 0
  and 1, \<open>indexOf\<close> finds position 0 only: the record that references position 1 has
  weight 2 and is not returned. And the query \<open>k\<close> after a space trims to the keyword of
  \<open>tinyList\<close>, yet \<open>indexOf\<close> is given the untrimmed string: the record has weight 2 and
  the result is empty.
\<close>

theorem exact_keyword_match_counterexample:
  "newEmojiSearcher asciiMethods dupKeywordList None = Inr dupKeywordEngine \<and>
   trim asciiMethods ''k'' = keywords_tbl dupKeywordList ! 1 \<and>
   1 \<in> set (entry_keywords (emojis dupKeywordList ! 1)) \<and>
   voteOf (resultVotes asciiMethods dupKeywordEngine ''k'') 1 = 2 \<and>
   search asciiMethods dupKeywordEngine ''k'' = Inr [humanReadable dupKeywordList 0 (Some 6)] \<and>
   newEmojiSearcher asciiMethods tinyList None = Inr tinyEngine \<and>
   trim asciiMethods '' k'' = keywords_tbl tinyList ! 0 \<and>
   0 \<in> set (entry_keywords (emojis tinyList ! 0)) \<and>
   voteOf (resultVotes asciiMethods tinyEngine '' k'') 0 = 2 \<and>
   search asciiMethods tinyEngine '' k'' = Inr []"
proof -
  have "trim asciiMethods ''k'' = keywords_tbl dupKeywordList ! 1"
    and "1 \<in> set (entry_keywords (emojis dupKeywordList ! 1))"
    and "voteOf (resultVotes asciiMethods dupKeywordEngine ''k'') 1 = 2"
    and "search asciiMethods dupKeywordEngine ''k'' = Inr [humanReadable dupKeywordList 0 (Some 6)]"
    and "trim asciiMethods '' k'' = keywords_tbl tinyList ! 0"
    and "0 \<in> set (entry_keywords (emojis tinyList ! 0))"
    and "voteOf (resultVotes asciiMethods tinyEngine '' k'') 0 = 2"
    and "search asciiMethods tinyEngine '' k'' = Inr []"
    by code_simp+
  then show ?thesis
    using dupKeyword_built tiny_built by simp
qed

section \<open>Listings\<close>

lemma intoHumanReadable_Inr:
  assumes "intoHumanReadable s i w = Inr r"
  shows "i < length (emojis (emojiList s)) \<and>
         emoji r = entry_emoji (emojis (emojiList s) ! i) \<and>
         name r = entry_name (emojis (emojiList s) ! i) \<and> weight r = w"
  using assms
  by (auto simp: intoHumanReadable_def Let_def nth_opt_def split: option.splits if_splits)

lemma search_blank: "toLowerCase rt (trim rt input) = [] \<Longrightarrow> search rt s input = getAll s"
  by (simp add: search_def getAll_def)

text \<open>
  C5. For every query that is empty after trimming, \<open>search\<close> returns what \<open>getAll\<close>
  returns: one entry for each record of the catalog, in catalog order, each without a
  weight; for a valid catalog both return. This holds for every pair of string methods
  that satisfies \<open>stringMethodsOK\<close>, so for the runtime's \<open>trim\<close> and every string it
  trims to nothing, whatever white space the string is made of.
\<close>

theorem blank_query_lists_all:
  assumes "trim rt input = []" and "stringMethodsOK rt"
  shows
    "search rt s input = getAll s \<and>
     (search rt s input = Inr rs \<longrightarrow>
        length rs = length (emojis (emojiList s)) \<and>
        (\<forall>i < length rs.
           intoHumanReadable s i None = Inr (rs ! i) \<and> weight (rs ! i) = None \<and>
           emoji (rs ! i) = entry_emoji (emojis (emojiList s) ! i) \<and>
           name (rs ! i) = entry_name (emojis (emojiList s) ! i))) \<and>
     (validCatalog (emojiList s) \<longrightarrow>
        search rt s input =
          Inr (map (\<lambda>i. humanReadable (emojiList s) i None)
                 [0..<length (emojis (emojiList s))]))"
proof -
  let ?n = "length (emojis (emojiList s))"
  have same: "search rt s input = getAll s"
    using assms by (intro search_blank) (simp add: stringMethodsOK_def)
  have each: "length rs = ?n \<and>
        (\<forall>i < length rs.
           intoHumanReadable s i None = Inr (rs ! i) \<and> weight (rs ! i) = None \<and>
           emoji (rs ! i) = entry_emoji (emojis (emojiList s) ! i) \<and>
           name (rs ! i) = entry_name (emojis (emojiList s) ! i))"
    if "search rt s input = Inr rs"
  proof -
    from that same have "list_all2 (\<lambda>i r. intoHumanReadable s i None = Inr r) [0..<?n] rs"
      by (simp add: getAll_def mapE_Inr_iff)
    then have len: "length rs = ?n"
      and nth: "\<And>i. i < ?n \<Longrightarrow> intoHumanReadable s i None = Inr (rs ! i)"
      by (auto simp: list_all2_conv_all_nth)
    have "emoji (rs ! i) = entry_emoji (emojis (emojiList s) ! i) \<and>
        name (rs ! i) = entry_name (emojis (emojiList s) ! i) \<and> weight (rs ! i) = None"
      if "i < ?n" for i
      using intoHumanReadable_Inr[OF nth[OF that]] by simp
    with len nth show ?thesis by simp
  qed
  have "validCatalog (emojiList s) \<longrightarrow>
        search rt s input =
          Inr (map (\<lambda>i. humanReadable (emojiList s) i None) [0..<?n])"
    by (simp add: same getAll_valid)
  with same each show ?thesis by blast
qed

theorem blank_query_lists_all_witness:
  "trim asciiMethods ''  '' = [] \<and> validCatalog (emojiList dupEngine) \<and>
   search asciiMethods dupEngine ''  '' = getAll dupEngine \<and>
   search asciiMethods dupEngine ''  '' = Inr [humanReadable dupList 0 None, humanReadable dupList 1 None] \<and>
   weight (humanReadable dupList 0 None) = None"
proof -
  have t: "trim asciiMethods ''  '' = []" by code_simp
  have "validCatalog (emojiList dupEngine)"
    and "search asciiMethods dupEngine ''  '' = Inr [humanReadable dupList 0 None, humanReadable dupList 1 None]"
    and "weight (humanReadable dupList 0 None) = None"
    by code_simp+
  moreover from blank_query_lists_all[OF t asciiMethods_ok, of dupEngine "[]"]
  have "search asciiMethods dupEngine ''  '' = getAll dupEngine" by blast
  ultimately show ?thesis using t by blast
qed

text \<open>
  C6. An engine constructed from the catalog and the object \<open>toJSON\<close> returns for a
  freshly built engine over that catalog is that engine again: for every query it gathers
  the same votes, keeps the same entries and returns the same records.
\<close>

theorem snapshot_roundtrip:
  assumes "newEmojiSearcher rt el None = Inr s"
  shows "\<exists>s'. newEmojiSearcher rt el (Some (toJSON s)) = Inr s' \<and>
              resultVotes rt s' input = resultVotes rt s input \<and>
              searchEntries rt s' input = searchEntries rt s input \<and>
              search rt s' input = search rt s input"
proof -
  have "emojiList s = el"
    using newEmojiSearcher_builtFrom[OF assms, of "[]"] by (simp add: builtFrom_def)
  then have "newEmojiSearcher rt el (Some (toJSON s)) = Inr s"
    using newEmojiSearcher_cached[of rt s] by simp
  then show ?thesis by blast
qed

theorem snapshot_roundtrip_witness:
  "newEmojiSearcher asciiMethods tinyList None = Inr tinyEngine \<and>
   newEmojiSearcher asciiMethods tinyList (Some (toJSON tinyEngine)) = Inr tinyEngine \<and>
   search asciiMethods tinyEngine ''a'' = Inr [humanReadable tinyList 0 (Some 8)] \<and>
   (\<exists>s'. newEmojiSearcher asciiMethods tinyList (Some (toJSON tinyEngine)) = Inr s' \<and>
         resultVotes asciiMethods s' ''a'' = resultVotes asciiMethods tinyEngine ''a'' \<and>
         searchEntries asciiMethods s' ''a'' = searchEntries asciiMethods tinyEngine ''a'' \<and>
         search asciiMethods s' ''a'' = search asciiMethods tinyEngine ''a'')"
proof -
  have "newEmojiSearcher asciiMethods tinyList (Some (toJSON tinyEngine)) = Inr tinyEngine"
    and "search asciiMethods tinyEngine ''a'' = Inr [humanReadable tinyList 0 (Some 8)]"
    by code_simp+
  with snapshot_roundtrip[OF tiny_built, of "''a''"] tiny_built show ?thesis by blast
qed

text \<open>
  C10. For every query, blank or not, the records \<open>search\<close> returns are the records of
  pairwise different positions: no record is returned twice, whatever number of signals it
  matches.
\<close>

theorem search_no_duplicates:
  "distinct (searchIds rt s input) \<and>
   (search rt s input = Inr rs \<longrightarrow>
      list_all2 (\<lambda>i r. \<exists>w. intoHumanReadable s i w = Inr r) (searchIds rt s input) rs)"
proof -
  have d: "distinct (searchIds rt s input)"
    by (simp add: searchIds_def searchEntries_distinct)
  have "list_all2 (\<lambda>i r. \<exists>w. intoHumanReadable s i w = Inr r) (searchIds rt s input) rs"
    if r: "search rt s input = Inr rs"
  proof (cases "toLowerCase rt (trim rt input) = []")
    case True
    with r have "list_all2 (\<lambda>i r. intoHumanReadable s i None = Inr r)
        [0..<length (emojis (emojiList s))] rs"
      by (simp add: search_blank getAll_def mapE_Inr_iff)
    then have "list_all2 (\<lambda>i r. \<exists>w. intoHumanReadable s i w = Inr r)
        [0..<length (emojis (emojiList s))] rs"
      by (rule list_all2_mono) blast
    then show ?thesis using True by (simp add: searchIds_def)
  next
    case False
    have "list_all2 (\<lambda>(i, w) r. intoHumanReadable s i (Some w) = Inr r) (searchEntries rt s input) rs"
      by (rule search_Inr_entries[OF False r])
    then have "list_all2 (\<lambda>p r. \<exists>w. intoHumanReadable s (fst p) w = Inr r) (searchEntries rt s input) rs"
      by (rule list_all2_mono) auto
    then show ?thesis using False by (simp add: searchIds_def list_all2_map1)
  qed
  with d show ?thesis by blast
qed

theorem search_no_duplicates_witness:
  "searchIds asciiMethods tinyEngine ''a'' = [0] \<and> distinct (searchIds asciiMethods tinyEngine ''a'') \<and>
   resultVotes asciiMethods tinyEngine ''a'' = [(0, 8)] \<and>
   search asciiMethods tinyEngine ''a'' = Inr [humanReadable tinyList 0 (Some 8)] \<and>
   list_all2 (\<lambda>i r. \<exists>w. intoHumanReadable tinyEngine i w = Inr r)
     (searchIds asciiMethods tinyEngine ''a'') [humanReadable tinyList 0 (Some 8)]"
proof -
  have "searchIds asciiMethods tinyEngine ''a'' = [0]"
    and "resultVotes asciiMethods tinyEngine ''a'' = [(0, 8)]"
    and "search asciiMethods tinyEngine ''a'' = Inr [humanReadable tinyList 0 (Some 8)]"
    by code_simp+
  with search_no_duplicates[of asciiMethods tinyEngine "''a''" "[humanReadable tinyList 0 (Some 8)]"]
  show ?thesis by simp
qed

section \<open>The curated default set\<close>

lemma fire_built: "newEmojiSearcher asciiMethods fireList None = Inr fireEngine"
  by code_simp

lemma findIndex_None: "findIndex P xs = None \<longleftrightarrow> (\<forall>x \<in> set xs. \<not> P x)"
  by (induction xs) auto

lemma findIndex_Some: "findIndex P xs = Some i \<Longrightarrow> i < length xs \<and> P (xs ! i)"
  by (induction xs arbitrary: i) (auto split: if_splits)

lemma commonRecord_None: "commonRecord el g = None \<longleftrightarrow> g \<notin> entry_emoji ` set (emojis el)"
proof -
  have "commonRecord el g = None \<longleftrightarrow> findIndex (\<lambda>e. entry_emoji e = g) (emojis el) = None"
    by (simp add: commonRecord_def split: option.splits)
  then show ?thesis
    by (auto simp: findIndex_None)
qed

lemma commonRecord_Some:
  assumes "commonRecord el g = Some r"
  shows "emoji r = g \<and>
         (\<exists>i < length (emojis el). r = humanReadable el i None \<and> entry_emoji (emojis el ! i) = emoji r)"
proof -
  from assms obtain i where
    i: "findIndex (\<lambda>e. entry_emoji e = g) (emojis el) = Some i" and r: "r = humanReadable el i None"
    by (auto simp: commonRecord_def split: option.splits)
  from findIndex_Some[OF i] have "i < length (emojis el)" "entry_emoji (emojis el ! i) = g"
    by simp_all
  moreover have "emoji r = entry_emoji (emojis el ! i)"
    by (simp add: r humanReadable_def Let_def)
  ultimately show ?thesis using r by auto
qed

lemma map_filter_commonRecord:
  "map emoji (List.map_filter (commonRecord el) gs) =
     filter (\<lambda>g. g \<in> entry_emoji ` set (emojis el)) gs"
proof (induction gs)
  case Nil
  then show ?case by (simp add: List.map_filter_simps)
next
  case (Cons g gs)
  show ?case
  proof (cases "commonRecord el g")
    case None
    then show ?thesis
      using Cons.IH commonRecord_None[of el g] by (simp add: List.map_filter_simps)
  next
    case (Some r)
    then have "g \<in> entry_emoji ` set (emojis el)"
      using commonRecord_None[of el g] by simp
    then show ?thesis
      using Cons.IH Some commonRecord_Some[OF Some] by (simp add: List.map_filter_simps)
  qed
qed

lemma list_all_commonRecord:
  "list_all
     (\<lambda>r. \<exists>i < length (emojis el). r = humanReadable el i None \<and>
                                     entry_emoji (emojis el ! i) = emoji r)
     (List.map_filter (commonRecord el) gs)"
proof (induction gs)
  case Nil
  then show ?case by (simp add: List.map_filter_simps)
next
  case (Cons g gs)
  show ?case
  proof (cases "commonRecord el g")
    case None
    then show ?thesis using Cons.IH by (simp add: List.map_filter_simps)
  next
    case (Some r)
    from commonRecord_Some[OF Some]
    have "\<exists>i < length (emojis el). r = humanReadable el i None \<and>
        entry_emoji (emojis el ! i) = emoji r"
      by blast
    then show ?thesis
      using Cons.IH Some by (simp add: List.map_filter_simps)
  qed
qed

lemma map_filter_id_map: "List.map_filter id (map f xs) = List.map_filter f xs"
  by (induction xs) (simp_all add: List.map_filter_simps split: option.splits)

lemma getCommon_valid:
  assumes "validCatalog (emojiList s)"
  shows "getCommon s = Inr (List.map_filter (commonRecord (emojiList s)) commonEmojis)"
proof -
  let ?el = "emojiList s"
  have "mapE (\<lambda>g. case findIndex (\<lambda>e. entry_emoji e = g) (emojis ?el) of
                     None \<Rightarrow> Inr None
                   | Some idx \<Rightarrow> map_sum id Some (intoHumanReadable s idx None))
          commonEmojis = Inr (map (commonRecord ?el) commonEmojis)"
  proof (rule mapE_map)
    fix g
    show "(case findIndex (\<lambda>e. entry_emoji e = g) (emojis ?el) of
             None \<Rightarrow> Inr None
           | Some idx \<Rightarrow> map_sum id Some (intoHumanReadable s idx None)) =
          Inr (commonRecord ?el g)"
    proof (cases "findIndex (\<lambda>e. entry_emoji e = g) (emojis ?el)")
      case None
      then show ?thesis by (simp add: commonRecord_def)
    next
      case (Some idx)
      then have "idx < length (emojis ?el)" by (simp add: findIndex_Some)
      then show ?thesis
        using Some by (simp add: commonRecord_def intoHumanReadable_valid[OF assms])
    qed
  qed
  then show ?thesis
    by (simp add: getCommon_def map_filter_id_map)
qed

text \<open>
  C8. Over a valid catalog \<open>getCommon\<close> returns, in the order of the curated list, one
  entry for each curated glyph that some record of the catalog carries and none for the
  others; every entry is the materialised record, without weight, of a position of the
  catalog whose glyph is the curated glyph.
\<close>

theorem getCommon_curated:
  assumes "validCatalog (emojiList s)"
  shows "\<exists>rs. getCommon s = Inr rs \<and>
              map emoji rs =
                filter (\<lambda>g. g \<in> entry_emoji ` set (emojis (emojiList s))) commonEmojis \<and>
              list_all
                (\<lambda>r. \<exists>i < length (emojis (emojiList s)).
                        r = humanReadable (emojiList s) i None \<and>
                        entry_emoji (emojis (emojiList s) ! i) = emoji r)
                rs"
  using getCommon_valid[OF assms] map_filter_commonRecord[of "emojiList s" commonEmojis]
    list_all_commonRecord[of "emojiList s" commonEmojis]
  by simp

theorem getCommon_curated_witness:
  "validCatalog (emojiList fireEngine) \<and>
   getCommon fireEngine = Inr [humanReadable fireList 2 None, humanReadable fireList 0 None] \<and>
   (\<exists>rs. getCommon fireEngine = Inr rs \<and>
         map emoji rs =
           filter (\<lambda>g. g \<in> entry_emoji ` set (emojis (emojiList fireEngine))) commonEmojis)"
proof -
  have v: "validCatalog (emojiList fireEngine)"
    and "getCommon fireEngine = Inr [humanReadable fireList 2 None, humanReadable fireList 0 None]"
    by code_simp+
  with getCommon_curated[OF v] show ?thesis by blast
qed

section \<open>The ranking of the caller\<close>

lemma rank_built: "newEmojiSearcher asciiMethods rankList None = Inr rankEngine"
  by code_simp

lemma insertSorted_insort:
  assumes "weightNumber x \<noteq> 0" and "\<forall>y \<in> set ys. weightNumber y \<noteq> 0"
  shows "insertSorted (compareFn localeCompare) x ys =
           insort_key (\<lambda>r. - int (weightNumber r)) x ys"
  using assms by (induction ys) (auto simp: compareFn_def)

lemma arraySort_sort_key:
  assumes "\<forall>y \<in> set xs. weightNumber y \<noteq> 0"
  shows "arraySort (compareFn localeCompare) xs = sort_key (\<lambda>r. - int (weightNumber r)) xs"
  using assms
proof (induction xs)
  case Nil
  then show ?case by (simp add: arraySort_def)
next
  case (Cons x xs)
  then have IH: "arraySort (compareFn localeCompare) xs = sort_key (\<lambda>r. - int (weightNumber r)) xs"
    by simp
  have "\<forall>y \<in> set (sort_key (\<lambda>r. - int (weightNumber r)) xs). weightNumber y \<noteq> 0"
    using Cons.prems by simp
  then show ?case
    using Cons.prems IH insertSorted_insort[of x "sort_key (\<lambda>r. - int (weightNumber r)) xs"]
    by (simp add: arraySort_def)
qed

lemma search_weights:
  assumes "toLowerCase rt (trim rt input) \<noteq> []" and "search rt s input = Inr rs"
  shows "\<forall>r \<in> set rs. 3 < weightNumber r"
proof
  fix r assume "r \<in> set rs"
  then obtain j where j: "j < length rs" and r: "r = rs ! j"
    by (auto simp: in_set_conv_nth)
  have L: "list_all2 (\<lambda>(i, w) r. intoHumanReadable s i (Some w) = Inr r) (searchEntries rt s input) rs"
    by (rule search_Inr_entries[OF assms])
  then have len: "length (searchEntries rt s input) = length rs"
    by (rule list_all2_lengthD)
  obtain i w where p: "searchEntries rt s input ! j = (i, w)"
    by (cases "searchEntries rt s input ! j")
  from list_all2_nthD2[OF L j] have "intoHumanReadable s i (Some w) = Inr r"
    by (simp add: p r)
  then have "weight r = Some w" by (rule intoHumanReadable_weight)
  moreover have "(i, w) \<in> set (searchEntries rt s input)"
    using j len p by (metis nth_mem)
  then have "3 < w" by (simp add: searchEntries_mem)
  ultimately show "3 < weightNumber r" by (simp add: weightNumber_def)
qed

text \<open>
  C7 (amended). For an input that is not blank the caller displays the output of \<open>search\<close>
  on the trimmed input, stably sorted by descending weight and cut to its first 32
  entries: entries of equal weight keep the order \<open>search\<close> gave them, the engine itself
  returns every entry it kept, an entry with a weight compares before one without, and
  the glyphs are compared only between two entries that both lack a weight. This holds
  for every pair of string methods that satisfies \<open>stringMethodsOK\<close>, so for \<open>trim\<close> and
  \<open>toLowerCase\<close> as the runtime implements them.
\<close>

theorem caller_ranking:
  assumes "trim rt input \<noteq> []" and "search rt s (trim rt input) = Inr rs"
    and "stringMethodsOK rt"
  shows
    "throttledSearch rt localeCompare s (Some input) =
       Inr (Some (take 32 (arraySort (compareFn localeCompare) rs))) \<and>
     length rs = length (searchEntries rt s (trim rt input)) \<and>
     mset (arraySort (compareFn localeCompare) rs) = mset rs \<and>
     sorted_wrt (\<lambda>a b. weightNumber b \<le> weightNumber a) (arraySort (compareFn localeCompare) rs) \<and>
     filter (\<lambda>r. weightNumber r = w) (arraySort (compareFn localeCompare) rs) =
       filter (\<lambda>r. weightNumber r = w) rs \<and>
     (weightNumber a \<noteq> 0 \<and> weightNumber b = 0 \<longrightarrow>
        compareFn localeCompare a b < 0 \<and> 0 < compareFn localeCompare b a) \<and>
     (weightNumber a = 0 \<and> weightNumber b = 0 \<longrightarrow>
        compareFn localeCompare a b = localeCompare (emoji a) (emoji b))"
proof -
  let ?key = "\<lambda>r. - int (weightNumber r)"
  let ?ds = "arraySort (compareFn localeCompare) rs"
  have tt: "toLowerCase rt (trim rt (trim rt input)) \<noteq> []"
    using assms(1,3) by (simp add: stringMethodsOK_def)
  have pos: "\<forall>r \<in> set rs. weightNumber r \<noteq> 0"
    using search_weights[OF tt assms(2)] by auto
  have ds: "?ds = sort_key ?key rs"
    by (rule arraySort_sort_key[OF pos])
  have 1: "throttledSearch rt localeCompare s (Some input) = Inr (Some (take 32 ?ds))"
    using assms by (simp add: throttledSearch_def)
  have 2: "length rs = length (searchEntries rt s (trim rt input))"
    using search_Inr_entries[OF tt assms(2)] by (simp add: list_all2_lengthD)
  have 3: "mset ?ds = mset rs" by (simp add: ds)
  have "sorted (map ?key ?ds)" by (simp add: ds)
  then have 4: "sorted_wrt (\<lambda>a b. weightNumber b \<le> weightNumber a) ?ds"
    by (simp add: sorted_wrt_map)
  have "filter (\<lambda>r. ?key r = - int w) ?ds = filter (\<lambda>r. ?key r = - int w) rs"
    unfolding ds by (rule sort_key_stable)
  then have 5: "filter (\<lambda>r. weightNumber r = w) ?ds = filter (\<lambda>r. weightNumber r = w) rs"
    by simp
  have 6: "weightNumber a \<noteq> 0 \<and> weightNumber b = 0 \<longrightarrow>
        compareFn localeCompare a b < 0 \<and> 0 < compareFn localeCompare b a"
    by (simp add: compareFn_def)
  have 7: "weightNumber a = 0 \<and> weightNumber b = 0 \<longrightarrow>
        compareFn localeCompare a b = localeCompare (emoji a) (emoji b)"
    by (simp add: compareFn_def)
  from 1 2 3 4 5 6 7 show ?thesis by blast
qed

theorem caller_ranking_witness:
  "trim asciiMethods '' x '' \<noteq> [] \<and>
   search asciiMethods rankEngine (trim asciiMethods '' x '') =
     Inr [humanReadable rankList 0 (Some 4), humanReadable rankList 1 (Some 4),
          humanReadable rankList 2 (Some 9)] \<and>
   throttledSearch asciiMethods lexCompare rankEngine (Some '' x '') =
     Inr (Some [humanReadable rankList 2 (Some 9), humanReadable rankList 0 (Some 4),
                humanReadable rankList 1 (Some 4)]) \<and>
   throttledSearch asciiMethods lexCompare rankEngine (Some '' x '') =
     Inr (Some (take 32 (arraySort (compareFn lexCompare)
        [humanReadable rankList 0 (Some 4), humanReadable rankList 1 (Some 4),
         humanReadable rankList 2 (Some 9)])))"
proof -
  have t: "trim asciiMethods '' x '' \<noteq> []"
    by code_simp
  have s: "search asciiMethods rankEngine (trim asciiMethods '' x '') =
     Inr [humanReadable rankList 0 (Some 4), humanReadable rankList 1 (Some 4),
          humanReadable rankList 2 (Some 9)]"
    by code_simp
  have d: "throttledSearch asciiMethods lexCompare rankEngine (Some '' x '') =
     Inr (Some [humanReadable rankList 2 (Some 9), humanReadable rankList 0 (Some 4),
                humanReadable rankList 1 (Some 4)])"
    by code_simp
  from caller_ranking[OF t s asciiMethods_ok, of lexCompare] t s d show ?thesis by blast
qed

text \<open>
  C7 as stated fails on ties. The first two records of \<open>rankList\<close> both have weight 4 for
  the query \<open>x\<close>, and \<open>a\<close> precedes \<open>b\<close> in lexicographic order; the caller displays the
  record with the glyph \<open>b\<close> before the one with the glyph \<open>a\<close>, in the order of \<open>search\<close>.
\<close>

theorem caller_ranking_counterexample:
  "newEmojiSearcher asciiMethods rankList None = Inr rankEngine \<and>
   throttledSearch asciiMethods lexCompare rankEngine (Some ''x'') =
     Inr (Some [humanReadable rankList 2 (Some 9), humanReadable rankList 0 (Some 4),
                humanReadable rankList 1 (Some 4)]) \<and>
   emoji (humanReadable rankList 0 (Some 4)) = ''b'' \<and>
   emoji (humanReadable rankList 1 (Some 4)) = ''a'' \<and>
   lexCompare ''a'' ''b'' < 0"
proof -
  have "throttledSearch asciiMethods lexCompare rankEngine (Some ''x'') =
     Inr (Some [humanReadable rankList 2 (Some 9), humanReadable rankList 0 (Some 4),
                humanReadable rankList 1 (Some 4)])"
    and "emoji (humanReadable rankList 0 (Some 4)) = ''b''"
    and "emoji (humanReadable rankList 1 (Some 4)) = ''a''"
    and "lexCompare ''a'' ''b'' < 0"
    by code_simp+
  with rank_built show ?thesis by simp
qed

end
